theory Spec2Isabelle
  imports Main
begin

section \<open>Strings as Python has them\<close>

text \<open>
  The generator of \<^verbatim>\<open>contrib/msggen/msggen/rust.py\<close> builds Rust source text from a tree
  of schema fields. Text is modelled as \<^typ>\<open>string\<close>; a \<^typ>\<open>char\<close> stands for the
  Python code point of the same number, so the model covers every text over the code
  points below 256. The functions of this section are the methods of Python's
  \<^verbatim>\<open>str\<close>, of \<^verbatim>\<open>re\<close> and of \<^verbatim>\<open>textwrap\<close> that the generator calls, on such texts.
\<close>

definition upper_chars :: string where
  \<open>upper_chars = ''ABCDEFGHIJKLMNOPQRSTUVWXYZ'' @
     [CHR 0xC0, CHR 0xC1, CHR 0xC2, CHR 0xC3, CHR 0xC4, CHR 0xC5, CHR 0xC6, CHR 0xC7,
      CHR 0xC8, CHR 0xC9, CHR 0xCA, CHR 0xCB, CHR 0xCC, CHR 0xCD, CHR 0xCE, CHR 0xCF,
      CHR 0xD0, CHR 0xD1, CHR 0xD2, CHR 0xD3, CHR 0xD4, CHR 0xD5, CHR 0xD6,
      CHR 0xD8, CHR 0xD9, CHR 0xDA, CHR 0xDB, CHR 0xDC, CHR 0xDD, CHR 0xDE]\<close>

definition lower_chars :: string where
  \<open>lower_chars = ''abcdefghijklmnopqrstuvwxyz'' @
     [CHR 0xE0, CHR 0xE1, CHR 0xE2, CHR 0xE3, CHR 0xE4, CHR 0xE5, CHR 0xE6, CHR 0xE7,
      CHR 0xE8, CHR 0xE9, CHR 0xEA, CHR 0xEB, CHR 0xEC, CHR 0xED, CHR 0xEE, CHR 0xEF,
      CHR 0xF0, CHR 0xF1, CHR 0xF2, CHR 0xF3, CHR 0xF4, CHR 0xF5, CHR 0xF6,
      CHR 0xF8, CHR 0xF9, CHR 0xFA, CHR 0xFB, CHR 0xFC, CHR 0xFD, CHR 0xFE]\<close>

text \<open>\<^verbatim>\<open>str.lower\<close> on one code point below 256: the letters A to Z and the capital
  letters of Latin-1 (0xC0 to 0xDE without the multiplication sign 0xD7) move to their
  small forms, every other code point stays.\<close>

definition lower_char :: "char \<Rightarrow> char" where
  "lower_char c = (case map_of (zip upper_chars lower_chars) c of Some d \<Rightarrow> d | None \<Rightarrow> c)"

definition lower :: "string \<Rightarrow> string" where
  "lower s = map lower_char s"

text \<open>\<^verbatim>\<open>s.replace("-", "_")\<close>: one character for one character.\<close>

definition replace_dash :: "string \<Rightarrow> string" where
  "replace_dash s = map (\<lambda>c. if c = CHR ''-'' then CHR ''_'' else c) s"

text \<open>The character class \<^verbatim>\<open>[A-Z]\<close> of \<^verbatim>\<open>re\<close>: the 26 ASCII capitals.\<close>

definition is_AZ :: "char \<Rightarrow> bool" where
  "is_AZ c = (c \<in> set ''ABCDEFGHIJKLMNOPQRSTUVWXYZ'')"

text \<open>\<^verbatim>\<open>re.sub(r'(?<!^)(?=[A-Z])', '_', s)\<close>: the pattern is empty and matches at every
  position that is not the start of the text and stands before a capital A to Z; an
  underscore is put in at each such position.\<close>

definition sub_upper :: "string \<Rightarrow> string" where
  "sub_upper s =
     (case s of
        [] \<Rightarrow> []
      | c # cs \<Rightarrow> c # concat (map (\<lambda>d. if is_AZ d then [CHR ''_'', d] else [d]) cs))"

text \<open>The two assignments of \<^verbatim>\<open>normalize_varname\<close>, as a function of the old path.\<close>

definition normalize_path :: "string \<Rightarrow> string" where
  "normalize_path p = lower (sub_upper (replace_dash p))"

text \<open>\<^verbatim>\<open>s.replace("[]", "")\<close>: the occurrences of \<^verbatim>\<open>[]\<close> are taken out from left to
  right, without overlap.\<close>

fun remove_brackets :: "string \<Rightarrow> string" where
  "remove_brackets (a # b # cs) =
     (if a = CHR ''['' \<and> b = CHR '']'' then remove_brackets cs
      else a # remove_brackets (b # cs))"
| "remove_brackets cs = cs"

text \<open>\<^verbatim>\<open>s[:-2]\<close>: the text without its last two characters, empty when there are fewer.\<close>

definition drop_last2 :: "string \<Rightarrow> string" where
  "drop_last2 s = take (length s - 2) s"

text \<open>\<^verbatim>\<open>s.split(".")[-1]\<close>: what follows the last dot, the whole text when it has none.\<close>

definition last_segment :: "string \<Rightarrow> string" where
  "last_segment s = rev (takeWhile (\<lambda>c. c \<noteq> CHR ''.'') (rev s))"

text \<open>The decimal digits of a list index, as \<^verbatim>\<open>f"{i}"\<close> writes them.\<close>

fun string_of_nat :: "nat \<Rightarrow> string" where
  "string_of_nat n =
     (if n < 10 then [''0123456789'' ! n]
      else string_of_nat (n div 10) @ [''0123456789'' ! (n mod 10)])"

text \<open>\<^verbatim>\<open>sep.join(xs)\<close>.\<close>

fun join :: "string \<Rightarrow> string list \<Rightarrow> string" where
  "join sep [] = []"
| "join sep [x] = x"
| "join sep (x # y # ys) = x @ sep @ join sep (y # ys)"

text \<open>\<^verbatim>\<open>str(v)\<close> for a value that is a text or \<^verbatim>\<open>None\<close>, as an f-string writes it.\<close>

definition str_opt :: "string option \<Rightarrow> string" where
  "str_opt v = (case v of None \<Rightarrow> ''None'' | Some s \<Rightarrow> s)"

subsection \<open>textwrap.dedent\<close>

text \<open>\<^verbatim>\<open>text.split("\n")\<close>: the lines of a text, without their line feeds.\<close>

fun split_lf :: "string \<Rightarrow> string list" where
  "split_lf [] = [[]]"
| "split_lf (c # cs) =
     (if c = CHR 0x0A then [] # split_lf cs
      else (case split_lf cs of [] \<Rightarrow> [[c]] | l # ls \<Rightarrow> (c # l) # ls))"

definition blank :: "char \<Rightarrow> bool" where
  "blank c = (c = CHR '' '' \<or> c = CHR 0x09)"

fun common_prefix :: "string \<Rightarrow> string \<Rightarrow> string" where
  "common_prefix (x # xs) (y # ys) = (if x = y then x # common_prefix xs ys else [])"
| "common_prefix xs ys = []"

text \<open>The leading run of spaces and tabs of every line that has another character: what
  \<^verbatim>\<open>_leading_whitespace_re.findall\<close> returns.\<close>

definition indents :: "string list \<Rightarrow> string list" where
  "indents ls = map (takeWhile blank) (filter (\<lambda>l. \<not> list_all blank l) ls)"

definition margin :: "string list \<Rightarrow> string" where
  "margin ls = (case indents ls of [] \<Rightarrow> [] | i # is \<Rightarrow> foldl common_prefix i is)"

definition strip_margin :: "string \<Rightarrow> string \<Rightarrow> string" where
  "strip_margin m l = (if take (length m) l = m then drop (length m) l else l)"

text \<open>\<^verbatim>\<open>textwrap.dedent\<close> (the implementation with regular expressions, Python 3.13 and
  before): lines of spaces and tabs only are emptied, the longest common leading run of
  spaces and tabs of the other lines is the margin, and a margin that is not empty is
  taken off every line that starts with it.\<close>

definition dedent :: "string \<Rightarrow> string" where
  "dedent text =
     (let ls = map (\<lambda>l. if list_all blank l then [] else l) (split_lf text);
          m = margin ls
      in join [CHR 0x0A] (if m = [] then ls else map (strip_margin m) ls))"

subsection \<open>textwrap.indent\<close>

text \<open>The code points below 256 at which \<^verbatim>\<open>str.splitlines\<close> ends a line, and those that
  \<^verbatim>\<open>str.strip\<close> takes for white space.\<close>

definition linebreak :: "char \<Rightarrow> bool" where
  "linebreak c = (c \<in> set [CHR 0x0A, CHR 0x0B, CHR 0x0C, CHR 0x0D, CHR 0x1C, CHR 0x1D, CHR 0x1E, CHR 0x85])"

definition space :: "char \<Rightarrow> bool" where
  "space c = (c \<in> set [CHR 0x09, CHR 0x0A, CHR 0x0B, CHR 0x0C, CHR 0x0D, CHR 0x1C, CHR 0x1D,
                        CHR 0x1E, CHR 0x1F, CHR 0x20, CHR 0x85, CHR 0xA0])"

text \<open>\<^verbatim>\<open>text.splitlines(True)\<close>: the lines with their line ends; a carriage return followed
  by a line feed is one line end.\<close>

fun splitlines :: "string \<Rightarrow> string list" where
  "splitlines [] = []"
| "splitlines (c # cs) =
     (if c = CHR 0x0D \<and> cs \<noteq> [] \<and> hd cs = CHR 0x0A then [c, CHR 0x0A] # splitlines (tl cs)
      else if linebreak c then [c] # splitlines cs
      else (case splitlines cs of [] \<Rightarrow> [[c]] | l # ls \<Rightarrow> (c # l) # ls))"

text \<open>\<^verbatim>\<open>textwrap.indent(text, prefix)\<close>: the prefix goes before every line that is not
  white space only.\<close>

definition indent :: "string \<Rightarrow> string \<Rightarrow> string" where
  "indent text prefix =
     concat (map (\<lambda>l. if list_all space l then l else prefix @ l) (splitlines text))"

section \<open>The field model\<close>

text \<open>
  The classes of \<^verbatim>\<open>model.py\<close> (imported in line 8 of \<^verbatim>\<open>rust.py\<close>) are not among the
  sources. A field is modelled with the attributes that \<^verbatim>\<open>rust.py\<close> reads from it.
  A variant of an enumeration is an object or \<^verbatim>\<open>None\<close>; \<open>UnknownField\<close> stands for an
  object of any other class, of which only the path is modelled.
\<close>

datatype field =
    PrimitiveField (path: string) (required: bool) (description: string) (typename: string)
  | EnumField (path: string) (required: bool) (description: string) (typename: string)
      (variants: "string option list")
  | ArrayField (path: string) (required: bool) (description: string) (itemtype: field)
      (dims: int)
  | CompositeField (path: string) (required: bool) (description: string) (typename: string)
      (fields: "field list")
  | UnknownField (path: string)

text \<open>The exceptions that the generator can raise.\<close>

datatype error = ValueError | AttributeError | UnboundLocalError

text \<open>
  Modelled from the spec: the attribute \<^verbatim>\<open>name\<close> of a field (class \<^verbatim>\<open>Field\<close> of
  \<^verbatim>\<open>model.py\<close>, not among the sources). The spec's normalizer turns "a schema field
  path/name into a valid target-language identifier" and is "applied in place", and its
  array paths "use a \<^verbatim>\<open>[]\<close> suffix per dimension". In \<^verbatim>\<open>rust.py\<close>, \<^verbatim>\<open>normalize_varname\<close>
  assigns the path only, \<^verbatim>\<open>gen_primitive\<close> saves \<^verbatim>\<open>p.name.name\<close> before that call and
  writes \<^verbatim>\<open>p.name\<close> after it, and \<^verbatim>\<open>gen_array\<close> strips \<^verbatim>\<open>[]\<close> from the name: the name
  is read off the path, as the last of its dotted segments. \<open>field_name f\<close> is the text
  \<^verbatim>\<open>f.name.name\<close>, which is also what \<^verbatim>\<open>str(f.name)\<close> writes in an f-string.
\<close>

definition field_name :: "field \<Rightarrow> string" where
  "field_name f = last_segment (path f)"

text \<open>
  The methods \<^verbatim>\<open>normalized()\<close> of a field name and of an enumeration variant are
  defined in \<^verbatim>\<open>model.py\<close> as well. They are parameters of the generator here: every
  theorem with a free \<open>M\<close> holds whatever these two methods compute.
\<close>

record model_py =
  name_normalized :: "string \<Rightarrow> string"
  variant_normalized :: "string \<Rightarrow> string"

text \<open>
  Modelled from the spec: the two \<^verbatim>\<open>normalized()\<close> methods of \<^verbatim>\<open>model.py\<close>, for the
  evaluation of the generator at concrete inputs. For names the spec gives the
  normalizer: "replace \<^verbatim>\<open>-\<close> with \<^verbatim>\<open>_\<close>; insert \<^verbatim>\<open>_\<close> before every uppercase letter that
  is not the first character, then lowercase the whole string". For variants it gives
  no rule, and its example renders the variants \<^verbatim>\<open>OPENING\<close>, \<^verbatim>\<open>CHANNELD_NORMAL\<close> and
  \<^verbatim>\<open>CLOSED\<close> under these names.
\<close>

definition spec_model :: model_py where
  "spec_model = \<lparr>name_normalized = normalize_path, variant_normalized = (\<lambda>v. v)\<rparr>"

section \<open>The static tables\<close>

definition overrides_table :: "(string \<times> string option) list" where
  \<open>overrides_table =
    [(''ListPeers.peers[].channels[].state_changes[].old_state'', Some ''ChannelState''),
     (''ListPeers.peers[].channels[].state_changes[].new_state'', Some ''ChannelState''),
     (''ListPeers.peers[].channels[].state_changes[].cause'', Some ''ChannelStateChangeCause''),
     (''ListPeers.peers[].channels[].opener'', Some ''ChannelSide''),
     (''ListPeers.peers[].channels[].closer'', Some ''ChannelSide''),
     (''ListPeers.peers[].channels[].features[]'', Some ''string''),
     (''ListFunds.channels[].state'', Some ''ChannelState''),
     (''ListTransactions.transactions[].type[]'', None)]\<close>

text \<open>\<open>overrides p = None\<close> says that \<open>p\<close> is not a key; \<open>overrides p = Some None\<close>
  that the value stored at \<open>p\<close> is \<^verbatim>\<open>None\<close>.\<close>

definition overrides :: "string \<Rightarrow> string option option" where
  "overrides = map_of overrides_table"

definition typemap_table :: "(string \<times> string) list" where
  \<open>typemap_table =
    [(''boolean'', ''bool''),
     (''hex'', ''String''),
     (''msat'', ''Amount''),
     (''msat|all'', ''AmountOrAll''),
     (''msat|any'', ''AmountOrAny''),
     (''number'', ''i64''),
     (''pubkey'', ''String''),
     (''short_channel_id'', ''String''),
     (''signature'', ''String''),
     (''string'', ''String''),
     (''txid'', ''String''),
     (''float'', ''f32''),
     (''utxo'', ''Utxo''),
     (''feerate'', ''Feerate'')]\<close>

definition typemap :: "string \<Rightarrow> string option" where
  "typemap = map_of typemap_table"

text \<open>\<^verbatim>\<open>typemap.get(t, t)\<close>.\<close>

definition typemap_get :: "string \<Rightarrow> string" where
  "typemap_get t = (case typemap t of Some r \<Rightarrow> r | None \<Rightarrow> t)"

section \<open>The renderer\<close>

text \<open>
  \<^verbatim>\<open>normalize_varname\<close> assigns the path of the field it is given and returns the field.
  Mutation is modelled by state passing: a function that mutates a field returns the
  field as it is afterwards. The calls of \<^verbatim>\<open>logger.debug\<close> write to the log only and are
  left out.
\<close>

fun normalize_varname :: "field \<Rightarrow> field" where
  "normalize_varname (PrimitiveField p r d t) = PrimitiveField (normalize_path p) r d t"
| "normalize_varname (EnumField p r d t vs) = EnumField (normalize_path p) r d t vs"
| "normalize_varname (ArrayField p r d i n) = ArrayField (normalize_path p) r d i n"
| "normalize_varname (CompositeField p r d t fs) = CompositeField (normalize_path p) r d t fs"
| "normalize_varname (UnknownField p) = UnknownField (normalize_path p)"

text \<open>\<^verbatim>\<open>gen_primitive\<close> returns the fragment and the empty declaration; the third
  component is the field after the call.\<close>

definition gen_primitive :: "field \<Rightarrow> string \<times> string \<times> field" where
  \<open>gen_primitive p =
     (let org = field_name p;
          tn = typemap_get (typename p);
          p' = normalize_varname p;
          defi =
            (if required p'
             then ''    #[serde(alias = "'' @ org @ ''")]\<newline>    pub '' @ field_name p' @ '': ''
                    @ tn @ '',\<newline>''
             else ''    #[serde(alias = "'' @ org
                    @ ''", skip_serializing_if = "Option::is_none")]\<newline>    pub ''
                    @ field_name p' @ '': Option<'' @ tn @ ''>,\<newline>'')
      in (defi, '''', p'))\<close>

subsection \<open>Enumerations\<close>

text \<open>The first loop of \<^verbatim>\<open>gen_enum\<close>: one line for each variant that is not \<^verbatim>\<open>None\<close>.\<close>

definition enum_variant_lines :: "model_py \<Rightarrow> string option list \<Rightarrow> string" where
  \<open>enum_variant_lines M vs =
     concat (map (\<lambda>v. case v of None \<Rightarrow> [] | Some s \<Rightarrow> ''    '' @ variant_normalized M s @ '',\<newline>'') vs)\<close>

text \<open>The second loop of \<^verbatim>\<open>gen_enum\<close> collects one match arm for each element of
  \<^verbatim>\<open>enumerate(e.variants)\<close>: the index and the normalized variant. It does not skip
  \<^verbatim>\<open>None\<close>, on which the call \<^verbatim>\<open>v.normalized()\<close> raises \<^verbatim>\<open>AttributeError\<close>.\<close>

fun try_from_arms :: "model_py \<Rightarrow> nat \<Rightarrow> string option list \<Rightarrow> error + (nat \<times> string) list" where
  "try_from_arms M i [] = Inr []"
| "try_from_arms M i (None # vs) = Inl AttributeError"
| "try_from_arms M i (Some s # vs) =
     (case try_from_arms M (Suc i) vs of
        Inl e \<Rightarrow> Inl e
      | Inr arms \<Rightarrow> Inr ((i, variant_normalized M s) # arms))"

definition arm_line :: "string \<Rightarrow> nat \<times> string \<Rightarrow> string" where
  \<open>arm_line tn a =
     ''    '' @ string_of_nat (fst a) @ '' => Ok('' @ tn @ ''::'' @ snd a @ ''),\<newline>''\<close>

definition try_from_head :: "string \<Rightarrow> string" where
  \<open>try_from_head tn =
     dedent (''    impl TryFrom<i32> for '' @ tn @ '' {\<newline>''
       @ ''        type Error = anyhow::Error;\<newline>''
       @ ''        fn try_from(c: i32) -> Result<'' @ tn @ '', anyhow::Error> {\<newline>''
       @ ''            match c {\<newline>''
       @ ''    '')\<close>

definition try_from_tail :: "string \<Rightarrow> string" where
  \<open>try_from_tail tn =
     dedent (''                o => Err(anyhow::anyhow!("Unknown variant {} for enum ''
       @ tn @ ''", o)),\<newline>''
       @ ''            }\<newline>''
       @ ''        }\<newline>''
       @ ''    }\<newline>''
       @ ''    '')\<close>

text \<open>The declaration that \<^verbatim>\<open>gen_enum\<close> builds in lines 84 to 115, before it looks at
  the overrides.\<close>

definition enum_decl :: "model_py \<Rightarrow> field \<Rightarrow> error + string" where
  \<open>enum_decl M e =
     (case try_from_arms M 0 (variants e) of
        Inl err \<Rightarrow> Inl err
      | Inr arms \<Rightarrow>
          Inr ((if description e \<noteq> '''' then ''/// '' @ description e @ ''\<newline>'' else '''')
            @ ''#[derive(Copy, Clone, Debug, Deserialize, Serialize)]\<newline>''
            @ ''#[serde(rename_all = "lowercase")]\<newline>''
            @ ''pub enum '' @ typename e @ '' {\<newline>''
            @ enum_variant_lines M (variants e)
            @ ''}\<newline>\<newline>''
            @ try_from_head (typename e)
            @ concat (map (arm_line (typename e)) arms)
            @ try_from_tail (typename e)))\<close>

text \<open>The type name that the fragment of an enumeration uses (lines 117 to 121).\<close>

definition enum_typename :: "field \<Rightarrow> string" where
  "enum_typename e =
     (case overrides (path e) of None \<Rightarrow> typename e | Some v \<Rightarrow> str_opt v)"

text \<open>The fragment of an enumeration (lines 123 to 127). For a field that is not required,
  line 126 assigns an attribute line and line 127 assigns the field line over it: the
  field line alone is returned.\<close>

definition enum_defi :: "model_py \<Rightarrow> field \<Rightarrow> string" where
  \<open>enum_defi M e =
     (if required e
      then ''    // Path `'' @ path e @ ''`\<newline>    #[serde(rename = "'' @ field_name e
             @ ''")]\<newline>    pub '' @ name_normalized M (field_name e) @ '': ''
             @ enum_typename e @ '',\<newline>''
      else ''    pub '' @ name_normalized M (field_name e) @ '': Option<''
             @ enum_typename e @ ''>,\<newline>'')\<close>

definition gen_enum :: "model_py \<Rightarrow> field \<Rightarrow> error + string \<times> string" where
  "gen_enum M e =
     (case enum_decl M e of
        Inl err \<Rightarrow> Inl err
      | Inr decl \<Rightarrow> Inr (enum_defi M e, if overrides (path e) \<noteq> None then '''' else decl))"

subsection \<open>Arrays and composites\<close>

text \<open>The variable \<^verbatim>\<open>itemtype\<close> of \<^verbatim>\<open>gen_array\<close> when line 161 reads it: the value stored
  in the overrides when the path of the array is a key (it may be \<^verbatim>\<open>None\<close>), else the
  type name of the item if that is a primitive, a composite or an enumeration. In every
  other case no branch has assigned the variable and reading it raises
  \<^verbatim>\<open>UnboundLocalError\<close>.\<close>

definition array_itemtype :: "string \<Rightarrow> field \<Rightarrow> error + string option" where
  "array_itemtype p item =
     (case overrides p of
        Some v \<Rightarrow> Inr v
      | None \<Rightarrow>
          (case item of
             PrimitiveField _ _ _ t \<Rightarrow> Inr (Some t)
           | CompositeField _ _ _ t _ \<Rightarrow> Inr (Some t)
           | EnumField _ _ _ t _ \<Rightarrow> Inr (Some t)
           | _ \<Rightarrow> Inl UnboundLocalError))"

text \<open>The fragment of an array (lines 164 to 166), from the name of the array, the value
  of \<^verbatim>\<open>itemtype\<close> and the number of dimensions. A text times a negative number is the
  empty text.\<close>

definition array_defi :: "model_py \<Rightarrow> string \<Rightarrow> string \<Rightarrow> int \<Rightarrow> string" where
  \<open>array_defi M nm t n =
     ''    #[serde(alias = "'' @ drop_last2 (name_normalized M nm) @ ''")]\<newline>    pub ''
       @ remove_brackets (name_normalized M nm) @ '': ''
       @ concat (replicate (nat n) ''Vec<'') @ typemap_get t @ concat (replicate (nat n) ''>'')
       @ '',\<newline>''\<close>

text \<open>
  \<^verbatim>\<open>gen_field\<close>, \<^verbatim>\<open>gen_array\<close> and \<^verbatim>\<open>gen_composite\<close> call each other; \<open>gen_fields\<close> is the
  loop of \<^verbatim>\<open>gen_composite\<close> over the children. Each returns the fragment, the
  declarations and the field as the call leaves it, or the exception that ends the
  call. \<^verbatim>\<open>gen_composite\<close> reads \<^verbatim>\<open>c.fields\<close>; a field of another kind has no such
  attribute.
\<close>

fun gen_field :: "model_py \<Rightarrow> field \<Rightarrow> error + string \<times> string \<times> field"
  and gen_array :: "model_py \<Rightarrow> field \<Rightarrow> error + string \<times> string \<times> field"
  and gen_composite :: "model_py \<Rightarrow> field \<Rightarrow> error + string \<times> string \<times> field"
  and gen_fields :: "model_py \<Rightarrow> field list \<Rightarrow> error + (string \<times> string) list \<times> field list"
where
  "gen_field M (CompositeField p r d t fs) = gen_composite M (CompositeField p r d t fs)"
| "gen_field M (EnumField p r d t vs) =
     (case gen_enum M (EnumField p r d t vs) of
        Inl e \<Rightarrow> Inl e
      | Inr (defi, decl) \<Rightarrow> Inr (defi, decl, EnumField p r d t vs))"
| "gen_field M (ArrayField p r d item n) = gen_array M (ArrayField p r d item n)"
| "gen_field M (PrimitiveField p r d t) = Inr (gen_primitive (PrimitiveField p r d t))"
| "gen_field M (UnknownField p) = Inl ValueError"
| "gen_array M (ArrayField p r d item n) =
     (case gen_field M item of
        Inl e \<Rightarrow> Inl e
      | Inr (_, decl, item') \<Rightarrow>
          (case array_itemtype p item' of
             Inl e \<Rightarrow> Inl e
           | Inr None \<Rightarrow> Inr ('''', '''', ArrayField p r d item' n)
           | Inr (Some t) \<Rightarrow>
               Inr (array_defi M (last_segment p) t n,
                    if overrides p \<noteq> None then '''' else decl,
                    ArrayField p r d item' n)))"
| "gen_array M (PrimitiveField p r d t) = Inl AttributeError"
| "gen_array M (EnumField p r d t vs) = Inl AttributeError"
| "gen_array M (CompositeField p r d t fs) = Inl AttributeError"
| "gen_array M (UnknownField p) = Inl AttributeError"
| "gen_composite M (CompositeField p r d t fs) =
     (case gen_fields M fs of
        Inl e \<Rightarrow> Inl e
      | Inr (rs, fs') \<Rightarrow>
          Inr ('''',
               concat (map snd rs)
                 @ ''#[derive(Clone, Debug, Deserialize, Serialize)]\<newline>pub struct '' @ t
                 @ '' {\<newline>'' @ concat (map fst rs) @ ''}\<newline>\<newline>'',
               CompositeField p r d t fs'))"
| "gen_composite M (PrimitiveField p r d t) = Inl AttributeError"
| "gen_composite M (EnumField p r d t vs) = Inl AttributeError"
| "gen_composite M (ArrayField p r d item n) = Inl AttributeError"
| "gen_composite M (UnknownField p) = Inl AttributeError"
| "gen_fields M [] = Inr ([], [])"
| "gen_fields M (f # fs) =
     (case gen_field M f of
        Inl e \<Rightarrow> Inl e
      | Inr (defi, decl, f') \<Rightarrow>
          (case gen_fields M fs of
             Inl e \<Rightarrow> Inl e
           | Inr (rs, fs') \<Rightarrow> Inr ((defi, decl) # rs, f' # fs')))"

section \<open>The service emitter\<close>

text \<open>
  A method has a name, a request and a response; a service is the list of its methods
  (\<^verbatim>\<open>service.methods\<close>). The output stream is modelled by the text written to it, and
  \<^verbatim>\<open>sys.argv\<close>, which the header quotes, is an argument.
\<close>

record meth =
  name :: string
  request :: field
  response :: field

type_synonym service = "meth list"

definition header :: "string list \<Rightarrow> string" where
  \<open>header argv =
     ''#![allow(non_camel_case_types)]\<newline>''
     @ ''//! This file was automatically generated using the following command:\<newline>''
     @ ''//!\<newline>''
     @ ''//! ```bash\<newline>''
     @ ''//! '' @ join '' '' argv @ ''\<newline>''
     @ ''//! ```\<newline>''
     @ ''//!\<newline>''
     @ ''//! Do not edit this file, it'll be overwritten. Rather edit the schema that\<newline>''
     @ ''//! this file was generated from\<newline>''
     @ ''\<newline>''\<close>

text \<open>\<^verbatim>\<open>RustGenerator.write\<close>, as the text that reaches the stream: the dedented text, or,
  for a positive \<^verbatim>\<open>numindent\<close>, the text as given with that many tabs before its lines.\<close>

definition write_text :: "string \<Rightarrow> int \<Rightarrow> string" where
  "write_text text numindent =
     (if numindent > 0 then indent text (concat (replicate (nat numindent) [CHR 0x09]))
      else dedent text)"

text \<open>\<^verbatim>\<open>f.typename\<close>: arrays have no such attribute.\<close>

definition typename_attr :: "field \<Rightarrow> error + string" where
  "typename_attr f =
     (case f of
        ArrayField _ _ _ _ _ \<Rightarrow> Inl AttributeError
      | UnknownField _ \<Rightarrow> Inl AttributeError
      | _ \<Rightarrow> Inr (typename f))"

text \<open>The two loops of \<^verbatim>\<open>generate_enums\<close>: one variant for each method, with the type
  name of its request (module \<^verbatim>\<open>requests\<close>) or of its response (module
  \<^verbatim>\<open>responses\<close>).\<close>

fun dispatch_variants :: "string \<Rightarrow> (meth \<Rightarrow> field) \<Rightarrow> meth list \<Rightarrow> error + string" where
  "dispatch_variants modname sel [] = Inr []"
| "dispatch_variants modname sel (m # ms) =
     (case typename_attr (sel m) of
        Inl e \<Rightarrow> Inl e
      | Inr t \<Rightarrow>
          (case dispatch_variants modname sel ms of
             Inl e \<Rightarrow> Inl e
           | Inr out \<Rightarrow>
               Inr (write_text (name m @ ''('' @ modname @ ''::'' @ t @ ''),\<newline>'') 1 @ out)))"

definition generate_enums :: "service \<Rightarrow> error + string" where
  \<open>generate_enums service =
     (case dispatch_variants ''requests'' request service of
        Inl e \<Rightarrow> Inl e
      | Inr reqs \<Rightarrow>
          (case dispatch_variants ''responses'' response service of
             Inl e \<Rightarrow> Inl e
           | Inr ress \<Rightarrow>
               Inr (write_text (''        use serde::{Deserialize, Serialize};\<newline>''
                      @ ''        pub use requests::*;\<newline>''
                      @ ''        pub use responses::*;\<newline>''
                      @ ''\<newline>''
                      @ ''        #[derive(Clone, Debug, Serialize, Deserialize)]\<newline>''
                      @ ''        #[serde(tag = "method", content = "params")]\<newline>''
                      @ ''        #[serde(rename_all = "lowercase")]\<newline>''
                      @ ''        pub enum Request {\<newline>''
                      @ ''        '') 0
                    @ reqs
                    @ write_text (''        }\<newline>''
                      @ ''\<newline>''
                      @ ''        #[derive(Clone, Debug, Serialize, Deserialize)]\<newline>''
                      @ ''        #[serde(tag = "method", content = "result")]\<newline>''
                      @ ''        #[serde(rename_all = "lowercase")]\<newline>''
                      @ ''        pub enum Response {\<newline>''
                      @ ''        '') 0
                    @ ress
                    @ write_text (''        }\<newline>''
                      @ ''\<newline>''
                      @ ''        '') 0)))\<close>

text \<open>The loop of \<^verbatim>\<open>generate_requests\<close>: the declarations of every request, each written
  with one tab; the requests are returned as the calls leave them.\<close>

fun requests_loop :: "model_py \<Rightarrow> meth list \<Rightarrow> error + string \<times> meth list" where
  "requests_loop M [] = Inr ([], [])"
| "requests_loop M (m # ms) =
     (case gen_composite M (request m) of
        Inl e \<Rightarrow> Inl e
      | Inr (_, decl, req) \<Rightarrow>
          (case requests_loop M ms of
             Inl e \<Rightarrow> Inl e
           | Inr (out, ms') \<Rightarrow> Inr (write_text decl 1 @ out, m\<lparr>request := req\<rparr> # ms')))"

definition generate_requests :: "model_py \<Rightarrow> service \<Rightarrow> error + string \<times> service" where
  \<open>generate_requests M service =
     (case requests_loop M service of
        Inl e \<Rightarrow> Inl e
      | Inr (out, service') \<Rightarrow>
          Inr (write_text (''        pub mod requests {\<newline>''
                 @ ''            #[allow(unused_imports)]\<newline>''
                 @ ''            use crate::primitives::*;\<newline>''
                 @ ''            #[allow(unused_imports)]\<newline>''
                 @ ''            use serde::{{Deserialize, Serialize}};\<newline>''
                 @ ''\<newline>''
                 @ ''        '') 0
               @ out @ write_text ''}\<newline>\<newline>'' 0,
               service'))\<close>

fun responses_loop :: "model_py \<Rightarrow> meth list \<Rightarrow> error + string \<times> meth list" where
  "responses_loop M [] = Inr ([], [])"
| "responses_loop M (m # ms) =
     (case gen_composite M (response m) of
        Inl e \<Rightarrow> Inl e
      | Inr (_, decl, res) \<Rightarrow>
          (case responses_loop M ms of
             Inl e \<Rightarrow> Inl e
           | Inr (out, ms') \<Rightarrow> Inr (write_text decl 1 @ out, m\<lparr>response := res\<rparr> # ms')))"

definition generate_responses :: "model_py \<Rightarrow> service \<Rightarrow> error + string \<times> service" where
  \<open>generate_responses M service =
     (case responses_loop M service of
        Inl e \<Rightarrow> Inl e
      | Inr (out, service') \<Rightarrow>
          Inr (write_text (''\<newline>''
                 @ ''        pub mod responses {\<newline>''
                 @ ''            #[allow(unused_imports)]\<newline>''
                 @ ''            use crate::primitives::*;\<newline>''
                 @ ''            #[allow(unused_imports)]\<newline>''
                 @ ''            use serde::{{Deserialize, Serialize}};\<newline>''
                 @ ''\<newline>''
                 @ ''        '') 0
               @ out @ write_text ''}\<newline>\<newline>'' 0,
               service'))\<close>

text \<open>\<^verbatim>\<open>RustGenerator.generate\<close>: the whole text written, and the service as the run
  leaves it.\<close>

definition generate :: "string list \<Rightarrow> model_py \<Rightarrow> service \<Rightarrow> error + string \<times> service" where
  "generate argv M service =
     (case generate_enums service of
        Inl e \<Rightarrow> Inl e
      | Inr enums \<Rightarrow>
          (case generate_requests M service of
             Inl e \<Rightarrow> Inl e
           | Inr (reqs, service') \<Rightarrow>
               (case generate_responses M service' of
                  Inl e \<Rightarrow> Inl e
                | Inr (ress, service'') \<Rightarrow>
                    Inr (write_text (header argv) 0 @ enums @ reqs @ ress, service''))))"

section \<open>Notions used in the properties\<close>

text \<open>The tree that a rendering leaves behind: the path of every primitive field is
  normalized, everything else is as it was.\<close>

fun normalized_tree :: "field \<Rightarrow> field" where
  "normalized_tree (PrimitiveField p r d t) = PrimitiveField (normalize_path p) r d t"
| "normalized_tree (ArrayField p r d item n) = ArrayField p r d (normalized_tree item) n"
| "normalized_tree (CompositeField p r d t fs) = CompositeField p r d t (map normalized_tree fs)"
| "normalized_tree (EnumField p r d t vs) = EnumField p r d t vs"
| "normalized_tree (UnknownField p) = UnknownField p"

definition normalized_service :: "service \<Rightarrow> service" where
  "normalized_service s =
     map (\<lambda>m. m\<lparr>request := normalized_tree (request m),
                 response := normalized_tree (response m)\<rparr>) s"

text \<open>The nodes of a tree that are not below an array whose path is a key of the
  overrides: the field itself, the children of a composite, and the item of an array
  that is not overridden, with their nodes of the same kind.\<close>

fun visible :: "field \<Rightarrow> field list" where
  "visible (CompositeField p r d t fs) = CompositeField p r d t fs # concat (map visible fs)"
| "visible (ArrayField p r d item n) =
     ArrayField p r d item n # (if overrides p = None then visible item else [])"
| "visible f = [f]"

text \<open>\<open>contains s t\<close>: the text \<open>s\<close> occurs in the text \<open>t\<close>.\<close>

fun contains :: "string \<Rightarrow> string \<Rightarrow> bool" where
  "contains s [] = (s = [])"
| "contains s (c # cs) = (take (length s) (c # cs) = s \<or> contains s cs)"


text \<open>The arm that the emitted Rust \<^verbatim>\<open>match c\<close> selects for an integer \<open>c\<close>: the first arm
  whose literal is \<open>c\<close>; \<open>None\<close> when no literal is \<open>c\<close> and the catch-all arm
  \<^verbatim>\<open>o => Err(...)\<close> applies.\<close>

definition match_arm :: "(nat \<times> string) list \<Rightarrow> int \<Rightarrow> string option" where
  "match_arm arms c = (if c < 0 then None else map_of arms (nat c))"

text \<open>An example: a service with one method, whose request has one primitive field, the
  text that \<^verbatim>\<open>generate\<close> writes for it, and the text that a second call writes for the
  same service object.\<close>

definition example_service :: service where
  "example_service =
     [\<lparr>name = ''Pay'',
       request = CompositeField ''Pay'' True '''' ''PayRequest''
                   [PrimitiveField ''Pay.max-fee'' True '''' ''msat''],
       response = CompositeField ''Pay'' True '''' ''PayResponse'' []\<rparr>]"

definition example_first_run :: string where
  \<open>example_first_run =
     ''#![allow(non_camel_case_types)]\<newline>''
     @ ''//! This file was automatically generated using the following command:\<newline>''
     @ ''//!\<newline>''
     @ ''//! ```bash\<newline>''
     @ ''//! msggen\<newline>''
     @ ''//! ```\<newline>''
     @ ''//!\<newline>''
     @ ''//! Do not edit this file, it'll be overwritten. Rather edit the schema that\<newline>''
     @ ''//! this file was generated from\<newline>''
     @ ''\<newline>''
     @ ''use serde::{Deserialize, Serialize};\<newline>''
     @ ''pub use requests::*;\<newline>''
     @ ''pub use responses::*;\<newline>''
     @ ''\<newline>''
     @ ''#[derive(Clone, Debug, Serialize, Deserialize)]\<newline>''
     @ ''#[serde(tag = "method", content = "params")]\<newline>''
     @ ''#[serde(rename_all = "lowercase")]\<newline>''
     @ ''pub enum Request {\<newline>''
     @ [CHR 0x09] @ ''Pay(requests::PayRequest),\<newline>''
     @ ''}\<newline>''
     @ ''\<newline>''
     @ ''#[derive(Clone, Debug, Serialize, Deserialize)]\<newline>''
     @ ''#[serde(tag = "method", content = "result")]\<newline>''
     @ ''#[serde(rename_all = "lowercase")]\<newline>''
     @ ''pub enum Response {\<newline>''
     @ [CHR 0x09] @ ''Pay(responses::PayResponse),\<newline>''
     @ ''}\<newline>''
     @ ''\<newline>''
     @ ''pub mod requests {\<newline>''
     @ ''    #[allow(unused_imports)]\<newline>''
     @ ''    use crate::primitives::*;\<newline>''
     @ ''    #[allow(unused_imports)]\<newline>''
     @ ''    use serde::{{Deserialize, Serialize}};\<newline>''
     @ ''\<newline>''
     @ [CHR 0x09] @ ''#[derive(Clone, Debug, Deserialize, Serialize)]\<newline>''
     @ [CHR 0x09] @ ''pub struct PayRequest {\<newline>''
     @ [CHR 0x09] @ ''    #[serde(alias = "max-fee")]\<newline>''
     @ [CHR 0x09] @ ''    pub max_fee: Amount,\<newline>''
     @ [CHR 0x09] @ ''}\<newline>''
     @ ''\<newline>''
     @ ''}\<newline>''
     @ ''\<newline>''
     @ ''\<newline>''
     @ ''pub mod responses {\<newline>''
     @ ''    #[allow(unused_imports)]\<newline>''
     @ ''    use crate::primitives::*;\<newline>''
     @ ''    #[allow(unused_imports)]\<newline>''
     @ ''    use serde::{{Deserialize, Serialize}};\<newline>''
     @ ''\<newline>''
     @ [CHR 0x09] @ ''#[derive(Clone, Debug, Deserialize, Serialize)]\<newline>''
     @ [CHR 0x09] @ ''pub struct PayResponse {\<newline>''
     @ [CHR 0x09] @ ''}\<newline>''
     @ ''\<newline>''
     @ ''}\<newline>''
     @ ''\<newline>''\<close>

definition example_second_run :: string where
  \<open>example_second_run =
     ''#![allow(non_camel_case_types)]\<newline>''
     @ ''//! This file was automatically generated using the following command:\<newline>''
     @ ''//!\<newline>''
     @ ''//! ```bash\<newline>''
     @ ''//! msggen\<newline>''
     @ ''//! ```\<newline>''
     @ ''//!\<newline>''
     @ ''//! Do not edit this file, it'll be overwritten. Rather edit the schema that\<newline>''
     @ ''//! this file was generated from\<newline>''
     @ ''\<newline>''
     @ ''use serde::{Deserialize, Serialize};\<newline>''
     @ ''pub use requests::*;\<newline>''
     @ ''pub use responses::*;\<newline>''
     @ ''\<newline>''
     @ ''#[derive(Clone, Debug, Serialize, Deserialize)]\<newline>''
     @ ''#[serde(tag = "method", content = "params")]\<newline>''
     @ ''#[serde(rename_all = "lowercase")]\<newline>''
     @ ''pub enum Request {\<newline>''
     @ [CHR 0x09] @ ''Pay(requests::PayRequest),\<newline>''
     @ ''}\<newline>''
     @ ''\<newline>''
     @ ''#[derive(Clone, Debug, Serialize, Deserialize)]\<newline>''
     @ ''#[serde(tag = "method", content = "result")]\<newline>''
     @ ''#[serde(rename_all = "lowercase")]\<newline>''
     @ ''pub enum Response {\<newline>''
     @ [CHR 0x09] @ ''Pay(responses::PayResponse),\<newline>''
     @ ''}\<newline>''
     @ ''\<newline>''
     @ ''pub mod requests {\<newline>''
     @ ''    #[allow(unused_imports)]\<newline>''
     @ ''    use crate::primitives::*;\<newline>''
     @ ''    #[allow(unused_imports)]\<newline>''
     @ ''    use serde::{{Deserialize, Serialize}};\<newline>''
     @ ''\<newline>''
     @ [CHR 0x09] @ ''#[derive(Clone, Debug, Deserialize, Serialize)]\<newline>''
     @ [CHR 0x09] @ ''pub struct PayRequest {\<newline>''
     @ [CHR 0x09] @ ''    #[serde(alias = "max_fee")]\<newline>''
     @ [CHR 0x09] @ ''    pub max_fee: Amount,\<newline>''
     @ [CHR 0x09] @ ''}\<newline>''
     @ ''\<newline>''
     @ ''}\<newline>''
     @ ''\<newline>''
     @ ''\<newline>''
     @ ''pub mod responses {\<newline>''
     @ ''    #[allow(unused_imports)]\<newline>''
     @ ''    use crate::primitives::*;\<newline>''
     @ ''    #[allow(unused_imports)]\<newline>''
     @ ''    use serde::{{Deserialize, Serialize}};\<newline>''
     @ ''\<newline>''
     @ [CHR 0x09] @ ''#[derive(Clone, Debug, Deserialize, Serialize)]\<newline>''
     @ [CHR 0x09] @ ''pub struct PayResponse {\<newline>''
     @ [CHR 0x09] @ ''}\<newline>''
     @ ''\<newline>''
     @ ''}\<newline>''
     @ ''\<newline>''\<close>

section \<open>Properties of the normalizer\<close>

lemma tables_length: "length upper_chars = length lower_chars"
  by (simp add: upper_chars_def lower_chars_def)

lemma tables_disjoint: "set lower_chars \<inter> set upper_chars = {}"
  by (simp add: upper_chars_def lower_chars_def)

lemma lower_char_cases:
  "(c \<notin> set upper_chars \<and> lower_char c = c)
   \<or> (c \<in> set upper_chars \<and> lower_char c \<in> set lower_chars)"
proof (cases "map_of (zip upper_chars lower_chars) c")
  case None
  then have "c \<notin> set upper_chars"
    using tables_length by (simp add: map_of_zip_is_None)
  with None show ?thesis by (simp add: lower_char_def)
next
  case (Some d)
  then have "(c, d) \<in> set (zip upper_chars lower_chars)" by (rule map_of_SomeD)
  then have "c \<in> set upper_chars" "d \<in> set lower_chars"
    by (auto dest: set_zip_leftD set_zip_rightD)
  with Some show ?thesis by (simp add: lower_char_def)
qed

lemma lower_char_fix: "c \<notin> set upper_chars \<Longrightarrow> lower_char c = c"
  using lower_char_cases [of c] by blast

lemma lower_char_not_upper: "lower_char c \<notin> set upper_chars"
  using lower_char_cases [of c] tables_disjoint by auto

lemma lower_char_idem: "lower_char (lower_char c) = lower_char c"
  by (rule lower_char_fix) (rule lower_char_not_upper)

lemma is_AZ_upper: "is_AZ c \<Longrightarrow> c \<in> set upper_chars"
  by (auto simp add: is_AZ_def upper_chars_def)

lemma dash_not_letter: "CHR ''-'' \<notin> set lower_chars" "CHR ''-'' \<notin> set upper_chars"
  by (simp_all add: upper_chars_def lower_chars_def)

lemma lower_char_dash: "lower_char c = CHR ''-'' \<Longrightarrow> c = CHR ''-''"
  using lower_char_cases [of c] dash_not_letter by auto

lemma sub_upper_chars: "set (sub_upper s) \<subseteq> insert (CHR ''_'') (set s)"
  by (cases s) (auto simp add: sub_upper_def split: if_splits)

lemma replace_dash_no_dash: "CHR ''-'' \<notin> set (replace_dash s)"
  by (auto simp add: replace_dash_def)

lemma normalize_path_no_dash: "CHR ''-'' \<notin> set (normalize_path p)"
proof
  assume "CHR ''-'' \<in> set (normalize_path p)"
  then obtain c where c: "c \<in> set (sub_upper (replace_dash p))" "lower_char c = CHR ''-''"
    by (auto simp add: normalize_path_def lower_def)
  then have "c = CHR ''-''" by (simp add: lower_char_dash)
  with c(1) sub_upper_chars [of "replace_dash p"] replace_dash_no_dash [of p]
  show False by auto
qed

lemma normalize_path_no_AZ: "c \<in> set (normalize_path p) \<Longrightarrow> \<not> is_AZ c"
  using lower_char_not_upper is_AZ_upper by (auto simp add: normalize_path_def lower_def)

lemma replace_dash_id: "CHR ''-'' \<notin> set s \<Longrightarrow> replace_dash s = s"
  by (induction s) (auto simp add: replace_dash_def)

lemma concat_no_AZ:
  "\<forall>d \<in> set cs. \<not> is_AZ d \<Longrightarrow>
   concat (map (\<lambda>d. if is_AZ d then [CHR ''_'', d] else [d]) cs) = cs"
  by (induction cs) auto

lemma sub_upper_id: "\<forall>d \<in> set s. \<not> is_AZ d \<Longrightarrow> sub_upper s = s"
  by (cases s) (simp_all add: sub_upper_def concat_no_AZ)

lemma lower_idem: "lower (lower s) = lower s"
  by (simp add: lower_def lower_char_idem)

lemma normalize_path_idem: "normalize_path (normalize_path p) = normalize_path p"
proof -
  have 1: "replace_dash (normalize_path p) = normalize_path p"
    by (rule replace_dash_id) (rule normalize_path_no_dash)
  have 2: "sub_upper (normalize_path p) = normalize_path p"
    by (rule sub_upper_id) (simp add: normalize_path_no_AZ)
  have "normalize_path (normalize_path p) = lower (sub_upper (replace_dash (normalize_path p)))"
    by (simp add: normalize_path_def)
  also have "\<dots> = lower (normalize_path p)" by (simp only: 1 2)
  also have "\<dots> = normalize_path p" by (simp add: normalize_path_def lower_idem)
  finally show ?thesis .
qed

text \<open>
  Claim C7. Name normalization (dashes to underscores, an underscore before every capital
  letter that is not the first character, then lowercase) is idempotent: for every field,
  \<^verbatim>\<open>normalize_varname\<close> applied to a field that it has normalized leaves the field as
  it is.
\<close>

theorem normalize_varname_idempotent:
  "normalize_varname (normalize_varname f) = normalize_varname f"
  by (cases f) (simp_all add: normalize_path_idem)

section \<open>What a rendering leaves behind\<close>

lemma normalized_tree_idem: "normalized_tree (normalized_tree f) = normalized_tree f"
  by (induction f) (simp_all add: normalize_path_idem map_idI)

lemma array_itemtype_normalized: "array_itemtype p (normalized_tree item) = array_itemtype p item"
  by (cases item) (simp_all add: array_itemtype_def split: option.splits)

lemma gen_tree:
  "(gen_field M f = Inr (dd, c, f') \<longrightarrow> f' = normalized_tree f)"
  "(gen_array M f = Inr (dd, c, f') \<longrightarrow> f' = normalized_tree f)"
  "(gen_composite M f = Inr (dd, c, f') \<longrightarrow> f' = normalized_tree f)"
  "(gen_fields M fs = Inr (rs, fs') \<longrightarrow> fs' = map normalized_tree fs)"
proof (induction M f and M f and M f and M fs arbitrary: dd c f' and dd c f' and dd c f' and rs fs'
    rule: gen_field_gen_array_gen_composite_gen_fields.induct)
  case (6 M p r d item n)
  then show ?case
    by (auto split: sum.splits option.splits prod.splits)
qed (auto simp add: gen_primitive_def Let_def split: sum.splits option.splits prod.splits)

lemma gen_again:
  "(gen_field M f = Inr x \<longrightarrow> (\<exists>d2 c2. gen_field M (normalized_tree f) = Inr (d2, c2, normalized_tree f)))"
  "(gen_array M f = Inr x \<longrightarrow> (\<exists>d2 c2. gen_array M (normalized_tree f) = Inr (d2, c2, normalized_tree f)))"
  "(gen_composite M f = Inr x \<longrightarrow> (\<exists>d2 c2. gen_composite M (normalized_tree f) = Inr (d2, c2, normalized_tree f)))"
  "(gen_fields M fs = Inr y \<longrightarrow> (\<exists>rs2. gen_fields M (map normalized_tree fs) = Inr (rs2, map normalized_tree fs)))"
proof (induction M f and M f and M f and M fs arbitrary: x and x and x and y
    rule: gen_field_gen_array_gen_composite_gen_fields.induct)
  case (6 M p r d item n)
  show ?case
  proof
    assume a: "gen_array M (ArrayField p r d item n) = Inr x"
    then obtain dd c item' where g: "gen_field M item = Inr (dd, c, item')"
      by (auto split: sum.splits)
    then have i: "item' = normalized_tree item" using gen_tree(1) by blast
    from a g obtain v where v: "array_itemtype p item' = Inr v"
      by (auto split: sum.splits)
    from 6 g obtain d2 c2 where
      g2: "gen_field M (normalized_tree item) = Inr (d2, c2, normalized_tree item)" by blast
    from v i have "array_itemtype p (normalized_tree item) = Inr v" by simp
    with g2 show "\<exists>d2 c2. gen_array M (normalized_tree (ArrayField p r d item n))
        = Inr (d2, c2, normalized_tree (ArrayField p r d item n))"
      by (cases v) simp_all
  qed
next
  case (17 M f fs)
  show ?case
  proof
    assume a: "gen_fields M (f # fs) = Inr y"
    then obtain x1 where g: "gen_field M f = Inr x1" by (auto split: sum.splits)
    with a obtain y1 where h: "gen_fields M fs = Inr y1" by (auto split: sum.splits prod.splits)
    from 17(1) g obtain d2 c2 where
      1: "gen_field M (normalized_tree f) = Inr (d2, c2, normalized_tree f)" by blast
    obtain dd c f' where x1: "x1 = (dd, c, f')" by (cases x1)
    from 17(2) [OF g [unfolded x1] refl refl] h
    obtain rs2 where 2: "gen_fields M (map normalized_tree fs) = Inr (rs2, map normalized_tree fs)"
      by blast
    from 1 2 show "\<exists>rs2. gen_fields M (map normalized_tree (f # fs)) = Inr (rs2, map normalized_tree (f # fs))"
      by simp
  qed
next
  case (11 M p r d t fs)
  show ?case
  proof
    assume "gen_composite M (CompositeField p r d t fs) = Inr x"
    then obtain y where "gen_fields M fs = Inr y" by (auto split: sum.splits)
    with 11 obtain rs2 where
      "gen_fields M (map normalized_tree fs) = Inr (rs2, map normalized_tree fs)" by blast
    then show "\<exists>d2 c2. gen_composite M (normalized_tree (CompositeField p r d t fs))
        = Inr (d2, c2, normalized_tree (CompositeField p r d t fs))"
      by simp
  qed
qed (auto simp add: gen_primitive_def gen_enum_def normalize_path_idem Let_def split: sum.splits option.splits prod.splits)

section \<open>Evaluation at concrete inputs\<close>

lemmas eval_defs =
  gen_primitive_def gen_enum_def enum_decl_def enum_defi_def enum_typename_def
  enum_variant_lines_def arm_line_def try_from_head_def try_from_tail_def
  array_itemtype_def array_defi_def field_name_def last_segment_def drop_last2_def
  typemap_get_def typemap_def typemap_table_def overrides_def overrides_table_def
  normalize_path_def lower_def lower_char_def upper_chars_def lower_chars_def
  sub_upper_def replace_dash_def is_AZ_def str_opt_def spec_model_def Let_def
  dedent_def margin_def indents_def blank_def strip_margin_def
  indent_def space_def linebreak_def write_text_def

section \<open>Mutation of the field tree\<close>

text \<open>
  Claim C9, as amended. Rendering mutates nothing but the path of primitive fields:
  whenever \<^verbatim>\<open>gen_field\<close> returns, the tree is left with the path of every primitive
  field in it normalized and with every other node and attribute as before. The
  normalization happens inside \<^verbatim>\<open>gen_primitive\<close>, while the fragment is produced and
  after the name has been read for the alias.
\<close>

theorem rendering_normalizes_primitive_paths:
  "gen_field M f = Inr (defi, decl, f') \<Longrightarrow> f' = normalized_tree f"
  using gen_tree(1) by blast

theorem rendering_normalizes_primitive_paths_witness:
  \<open>gen_field spec_model (PrimitiveField ''Fund.short-channel-id'' False '''' ''short_channel_id'')
     = Inr (''    #[serde(alias = "short-channel-id", skip_serializing_if = "Option::is_none")]\<newline>    pub short_channel_id: Option<String>,\<newline>'',
            '''',
            PrimitiveField ''fund.short_channel_id'' False '''' ''short_channel_id'')
   \<and> PrimitiveField ''fund.short_channel_id'' False '''' ''short_channel_id''
     = normalized_tree (PrimitiveField ''Fund.short-channel-id'' False '''' ''short_channel_id'')\<close>
proof -
  have h: \<open>gen_field spec_model (PrimitiveField ''Fund.short-channel-id'' False '''' ''short_channel_id'')
     = Inr (''    #[serde(alias = "short-channel-id", skip_serializing_if = "Option::is_none")]\<newline>    pub short_channel_id: Option<String>,\<newline>'',
            '''',
            PrimitiveField ''fund.short_channel_id'' False '''' ''short_channel_id'')\<close>
    by (simp add: eval_defs)
  from rendering_normalizes_primitive_paths [OF h] h show ?thesis by simp
qed

text \<open>
  Claim C9, as stated, fails: while the fragment of a primitive field is produced, the
  path and the name of the field change. The alias in the fragment below is the name
  before the change, the identifier is the name after it.
\<close>

theorem path_changes_while_rendering_counterexample:
  \<open>gen_field spec_model (PrimitiveField ''Fund.short-channel-id'' False '''' ''short_channel_id'')
     = Inr (''    #[serde(alias = "short-channel-id", skip_serializing_if = "Option::is_none")]\<newline>    pub short_channel_id: Option<String>,\<newline>'',
            '''',
            PrimitiveField ''fund.short_channel_id'' False '''' ''short_channel_id'')
   \<and> path (PrimitiveField ''fund.short_channel_id'' False '''' ''short_channel_id'')
       \<noteq> path (PrimitiveField ''Fund.short-channel-id'' False '''' ''short_channel_id'')
   \<and> field_name (PrimitiveField ''fund.short_channel_id'' False '''' ''short_channel_id'')
       \<noteq> field_name (PrimitiveField ''Fund.short-channel-id'' False '''' ''short_channel_id'')\<close>
  by (simp add: eval_defs)

section \<open>Running the generator twice\<close>

lemma typename_attr_normalized: "typename_attr (normalized_tree f) = typename_attr f"
  by (cases f) (simp_all add: typename_attr_def)

lemma dispatch_variants_map:
  assumes "\<And>m. name (h m) = name m" "\<And>m. typename_attr (sel (h m)) = typename_attr (sel m)"
  shows "dispatch_variants mn sel (map h ms) = dispatch_variants mn sel ms"
  by (induction ms) (simp_all add: assms split: sum.splits)

lemma generate_enums_normalized: "generate_enums (normalized_service s) = generate_enums s"
proof -
  have a: "dispatch_variants mn request (normalized_service s) = dispatch_variants mn request s" for mn
    unfolding normalized_service_def
    by (rule dispatch_variants_map) (simp_all add: typename_attr_normalized)
  have b: "dispatch_variants mn response (normalized_service s) = dispatch_variants mn response s" for mn
    unfolding normalized_service_def
    by (rule dispatch_variants_map) (simp_all add: typename_attr_normalized)
  show ?thesis by (simp only: generate_enums_def a b)
qed

lemma requests_loop_tree:
  "requests_loop M ms = Inr (out, ms') \<Longrightarrow>
   ms' = map (\<lambda>m. m\<lparr>request := normalized_tree (request m)\<rparr>) ms"
proof (induction ms arbitrary: out ms')
  case Nil
  then show ?case by simp
next
  case (Cons m ms)
  then show ?case
    using gen_tree(3) by (fastforce split: sum.splits prod.splits)
qed

lemma responses_loop_tree:
  "responses_loop M ms = Inr (out, ms') \<Longrightarrow>
   ms' = map (\<lambda>m. m\<lparr>response := normalized_tree (response m)\<rparr>) ms"
proof (induction ms arbitrary: out ms')
  case Nil
  then show ?case by simp
next
  case (Cons m ms)
  then show ?case
    using gen_tree(3) by (fastforce split: sum.splits prod.splits)
qed

lemma requests_loop_ok:
  "(\<exists>y. requests_loop M ms = Inr y) \<longleftrightarrow> (\<forall>m \<in> set ms. \<exists>x. gen_composite M (request m) = Inr x)"
  by (induction ms) (auto split: sum.splits prod.splits)

lemma responses_loop_ok:
  "(\<exists>y. responses_loop M ms = Inr y) \<longleftrightarrow> (\<forall>m \<in> set ms. \<exists>x. gen_composite M (response m) = Inr x)"
  by (induction ms) (auto split: sum.splits prod.splits)

lemma normalized_service_idem: "normalized_service (normalized_service s) = normalized_service s"
  by (simp add: normalized_service_def normalized_tree_idem)

lemma generate_tree:
  assumes "generate argv M s = Inr (out, s')"
  shows "s' = normalized_service s"
proof -
  from assms obtain o1 s1 o2 where
    1: "generate_requests M s = Inr (o1, s1)" and 2: "generate_responses M s1 = Inr (o2, s')"
    by (auto simp add: generate_def split: sum.splits prod.splits)
  from 1 have "s1 = map (\<lambda>m. m\<lparr>request := normalized_tree (request m)\<rparr>) s"
    by (auto simp add: generate_requests_def split: sum.splits prod.splits dest: requests_loop_tree)
  moreover from 2 have "s' = map (\<lambda>m. m\<lparr>response := normalized_tree (response m)\<rparr>) s1"
    by (auto simp add: generate_responses_def split: sum.splits prod.splits dest: responses_loop_tree)
  ultimately show ?thesis by (simp add: normalized_service_def)
qed

lemma generate_again:
  assumes "generate argv M s = Inr (out, s')"
  shows "\<exists>out2. generate argv M s' = Inr (out2, s')"
proof -
  have s': "s' = normalized_service s" using assms by (rule generate_tree)
  from assms obtain e o1 s1 o2 where
    0: "generate_enums s = Inr e" and
    1: "generate_requests M s = Inr (o1, s1)" and 2: "generate_responses M s1 = Inr (o2, s')"
    by (auto simp add: generate_def split: sum.splits prod.splits)
  from 1 have s1: "s1 = map (\<lambda>m. m\<lparr>request := normalized_tree (request m)\<rparr>) s"
    by (auto simp add: generate_requests_def split: sum.splits prod.splits dest: requests_loop_tree)
  from 1 have "\<exists>y. requests_loop M s = Inr y"
    by (auto simp add: generate_requests_def split: sum.splits)
  then have rq: "\<forall>m \<in> set s. \<exists>x. gen_composite M (request m) = Inr x"
    using requests_loop_ok [of M s] by blast
  from 2 have "\<exists>y. responses_loop M s1 = Inr y"
    by (auto simp add: generate_responses_def split: sum.splits)
  then have "\<forall>m \<in> set s1. \<exists>x. gen_composite M (response m) = Inr x"
    using responses_loop_ok [of M s1] by blast
  then have rs: "\<forall>m \<in> set s. \<exists>x. gen_composite M (response m) = Inr x"
    by (simp add: s1)
  have "\<forall>m \<in> set s'. \<exists>x. gen_composite M (request m) = Inr x"
    using rq gen_again(3) by (fastforce simp add: s' normalized_service_def)
  then obtain q1 t1 where q: "requests_loop M s' = Inr (q1, t1)"
    using requests_loop_ok [of M s'] by auto
  then have "t1 = map (\<lambda>m. m\<lparr>request := normalized_tree (request m)\<rparr>) s'"
    by (rule requests_loop_tree)
  then have t1: "t1 = s'"
    by (simp add: s' normalized_service_def normalized_tree_idem)
  have "\<forall>m \<in> set s'. \<exists>x. gen_composite M (response m) = Inr x"
    using rs gen_again(3) by (fastforce simp add: s' normalized_service_def)
  then obtain q2 t2 where p: "responses_loop M s' = Inr (q2, t2)"
    using responses_loop_ok [of M s'] by auto
  then have "t2 = map (\<lambda>m. m\<lparr>response := normalized_tree (response m)\<rparr>) s'"
    by (rule responses_loop_tree)
  then have t2: "t2 = s'"
    by (simp add: s' normalized_service_def normalized_tree_idem)
  have "generate_enums s' = Inr e"
    using 0 by (simp add: s' generate_enums_normalized)
  with q p t1 t2 show ?thesis
    by (simp add: generate_def generate_requests_def generate_responses_def)
qed

lemmas emit_defs =
  generate_def generate_enums_def generate_requests_def generate_responses_def
  header_def typename_attr_def normalized_service_def

lemma example_runs:
  "generate [''msggen''] spec_model example_service
     = Inr (example_first_run, normalized_service example_service)"
  "generate [''msggen''] spec_model (normalized_service example_service)
     = Inr (example_second_run, normalized_service example_service)"
  by (simp_all add: example_service_def example_first_run_def example_second_run_def
      emit_defs eval_defs)

text \<open>
  Claim C8, as amended. The text that \<^verbatim>\<open>generate\<close> writes is a function of the service as
  the call finds it (and of \<^verbatim>\<open>sys.argv\<close>, the typemap and the overrides). A run leaves
  the service with the path of every primitive field normalized. A run on the service
  that a run has left succeeds again and leaves it unchanged, so every later run writes
  what the second run writes; and when the paths of the primitive fields are normalized
  from the start, the second run writes what the first run wrote.
\<close>

theorem generate_rerun:
  assumes "generate argv M s = Inr (out, s')"
  shows "s' = normalized_service s
    \<and> (\<exists>out2. generate argv M s' = Inr (out2, s'))
    \<and> (normalized_service s = s \<longrightarrow> generate argv M s' = Inr (out, s'))"
proof (intro conjI impI)
  show 1: "s' = normalized_service s" using assms by (rule generate_tree)
  show "\<exists>out2. generate argv M s' = Inr (out2, s')" using assms by (rule generate_again)
  assume "normalized_service s = s"
  with 1 assms show "generate argv M s' = Inr (out, s')" by simp
qed

theorem generate_rerun_witness:
  "generate [''msggen''] spec_model (normalized_service example_service)
     = Inr (example_second_run, normalized_service example_service)
   \<and> normalized_service (normalized_service example_service) = normalized_service example_service
   \<and> (\<exists>out2. generate [''msggen''] spec_model (normalized_service example_service)
          = Inr (out2, normalized_service example_service))"
  using generate_rerun [OF example_runs(2)] example_runs(2) by simp

text \<open>
  Claim C8, as stated, fails: the second run over the same service object writes a
  different text. The first run has normalized the path of the primitive field
  \<^verbatim>\<open>Pay.max-fee\<close>, and the second run takes the alias from the normalized name.
\<close>

theorem generate_twice_counterexample:
  "generate [''msggen''] spec_model example_service
     = Inr (example_first_run, normalized_service example_service)
   \<and> generate [''msggen''] spec_model (normalized_service example_service)
     = Inr (example_second_run, normalized_service example_service)
   \<and> example_first_run \<noteq> example_second_run"
  using example_runs by (simp add: example_first_run_def example_second_run_def)

section \<open>Declarations and fragments of a composite\<close>

lemma take_eq_iff_prefix: "take (length s) t = s \<longleftrightarrow> (\<exists>post. t = s @ post)"
proof
  assume "take (length s) t = s"
  then have "t = s @ drop (length s) t" by (metis append_take_drop_id)
  then show "\<exists>post. t = s @ post" ..
next
  assume "\<exists>post. t = s @ post"
  then show "take (length s) t = s" by auto
qed

lemma contains_iff: "contains s t \<longleftrightarrow> (\<exists>pre post. t = pre @ s @ post)"
proof (induction t)
  case Nil
  then show ?case by auto
next
  case (Cons c cs)
  show ?case
  proof
    assume "contains s (c # cs)"
    then consider "take (length s) (c # cs) = s" | "contains s cs" by auto
    then show "\<exists>pre post. c # cs = pre @ s @ post"
    proof cases
      case 1
      then obtain post where "c # cs = s @ post" using take_eq_iff_prefix by blast
      then have "c # cs = [] @ s @ post" by simp
      then show ?thesis by blast
    next
      case 2
      with Cons obtain pre post where "cs = pre @ s @ post" by blast
      then have "c # cs = (c # pre) @ s @ post" by simp
      then show ?thesis by blast
    qed
  next
    assume "\<exists>pre post. c # cs = pre @ s @ post"
    then obtain pre post where e: "c # cs = pre @ s @ post" by blast
    show "contains s (c # cs)"
    proof (cases pre)
      case Nil
      with e have "take (length s) (c # cs) = s" using take_eq_iff_prefix by auto
      then show ?thesis by simp
    next
      case (Cons a pre')
      with e have "cs = pre' @ s @ post" by simp
      with Cons.IH have "contains s cs" by blast
      then show ?thesis by simp
    qed
  qed
qed

lemma contains_refl: "contains s s"
  unfolding contains_iff by (metis append_Nil append_Nil2)

lemma contains_append: "contains s t \<Longrightarrow> contains s (a @ t @ b)"
  unfolding contains_iff by (metis append.assoc)

lemma contains_appendL: "contains s t \<Longrightarrow> contains s (a @ t)"
  using contains_append [of s t a "[]"] by simp

lemma contains_appendR: "contains s t \<Longrightarrow> contains s (t @ b)"
  using contains_append [of s t "[]" b] by simp


lemma gen_visible:
  "(gen_field M f = Inr (dd, c, f') \<longrightarrow>
     (\<forall>g \<in> set (visible f). \<exists>dg cg g'. gen_field M g = Inr (dg, cg, g') \<and> contains cg c))"
  "(gen_array M f = Inr (dd, c, f') \<longrightarrow>
     (\<forall>g \<in> set (visible f). \<exists>dg cg g'. gen_field M g = Inr (dg, cg, g') \<and> contains cg c))"
  "(gen_composite M f = Inr (dd, c, f') \<longrightarrow>
     (\<forall>g \<in> set (visible f). \<exists>dg cg g'. gen_field M g = Inr (dg, cg, g') \<and> contains cg c))"
  "(gen_fields M fs = Inr (rs, fs') \<longrightarrow>
     (\<forall>f \<in> set fs. \<forall>g \<in> set (visible f).
        \<exists>dg cg g'. gen_field M g = Inr (dg, cg, g') \<and> contains cg (concat (map snd rs))))"
proof (induction M f and M f and M f and M fs
    arbitrary: dd c f' and dd c f' and dd c f' and rs fs'
    rule: gen_field_gen_array_gen_composite_gen_fields.induct)
  case (1 M p r d t fs)
  then show ?case by simp
next
  case (2 M p r d t vs)
  then show ?case by (auto simp add: contains_refl split: sum.splits)
next
  case (3 M p r d item n)
  then show ?case by simp
next
  case (4 M p r d t)
  then show ?case by (auto simp add: contains_refl)
next
  case (6 M p r d item n)
  show ?case
  proof (intro impI ballI)
    fix g
    assume a: "gen_array M (ArrayField p r d item n) = Inr (dd, c, f')"
      and g: "g \<in> set (visible (ArrayField p r d item n))"
    from a obtain di ci item' where i: "gen_field M item = Inr (di, ci, item')"
      by (auto split: sum.splits)
    from g consider "g = ArrayField p r d item n" | "overrides p = None" "g \<in> set (visible item)"
      by (auto split: if_splits)
    then show "\<exists>dg cg g'. gen_field M g = Inr (dg, cg, g') \<and> contains cg c"
    proof cases
      case 1
      with a show ?thesis by (auto simp add: contains_refl)
    next
      case 2
      with 6 i obtain dg cg g' where
        "gen_field M g = Inr (dg, cg, g')" "contains cg ci" by blast
      moreover from a i 2(1) have "c = ci"
        by (auto simp add: array_itemtype_def split: sum.splits option.splits field.splits)
      ultimately show ?thesis by blast
    qed
  qed
next
  case (11 M p r d t fs)
  show ?case
  proof (intro impI ballI)
    fix g
    assume a: "gen_composite M (CompositeField p r d t fs) = Inr (dd, c, f')"
      and g: "g \<in> set (visible (CompositeField p r d t fs))"
    from a obtain rs fs' where r: "gen_fields M fs = Inr (rs, fs')"
      by (auto split: sum.splits)
    with a obtain rest where c: "c = concat (map snd rs) @ rest"
      by auto
    from g consider "g = CompositeField p r d t fs" | f where "f \<in> set fs" "g \<in> set (visible f)"
      by auto
    then show "\<exists>dg cg g'. gen_field M g = Inr (dg, cg, g') \<and> contains cg c"
    proof cases
      case 1
      with a show ?thesis by (auto simp add: contains_refl)
    next
      case 2
      with 11 r obtain dg cg g' where
        "gen_field M g = Inr (dg, cg, g')" "contains cg (concat (map snd rs))" by blast
      then show ?thesis using c contains_appendR by blast
    qed
  qed
next
  case (17 M f fs)
  show ?case
  proof (intro impI ballI)
    fix f0 g
    assume a: "gen_fields M (f # fs) = Inr (rs, fs')"
      and f0: "f0 \<in> set (f # fs)" and g: "g \<in> set (visible f0)"
    from a obtain defi decl f1 rs0 fs0 where
      f: "gen_field M f = Inr (defi, decl, f1)" and
      r: "gen_fields M fs = Inr (rs0, fs0)" and
      e: "rs = (defi, decl) # rs0"
      by (auto split: sum.splits prod.splits)
    from f0 consider "f0 = f" | "f0 \<in> set fs" by auto
    then show "\<exists>dg cg g'. gen_field M g = Inr (dg, cg, g') \<and> contains cg (concat (map snd rs))"
    proof cases
      case 1
      with 17(1) f g obtain dg cg g' where
        "gen_field M g = Inr (dg, cg, g')" "contains cg decl" by blast
      then show ?thesis using e contains_appendR by auto
    next
      case 2
      from 17(2) [OF f refl refl] r 2 g obtain dg cg g' where
        "gen_field M g = Inr (dg, cg, g')" "contains cg (concat (map snd rs0))" by blast
      then show ?thesis using e contains_appendL by auto
    qed
  qed
qed simp_all


text \<open>
  Claim C1, as amended. For every composite field, with or without an entry for its path
  in the override table, a rendering that returns emits the declaration of the composite
  itself, and the declarations of every node below it that is not under an overridden
  array are part of what is emitted (the declaration that \<^verbatim>\<open>gen_field\<close> returns for such
  a node occurs in the declarations returned for the composite). The overrides take a
  declaration away only at an enumeration and below an array.
\<close>

theorem composite_declarations_emitted:
  assumes \<open>gen_field M (CompositeField p r d t fs) = Inr (defi, decl, c')\<close>
  shows \<open>(\<exists>pre body. decl = pre @ ''#[derive(Clone, Debug, Deserialize, Serialize)]\<newline>pub struct ''
              @ t @ '' {\<newline>'' @ body @ ''}\<newline>\<newline>'')
    \<and> (\<forall>g \<in> set (visible (CompositeField p r d t fs)).
          \<exists>dg cg g'. gen_field M g = Inr (dg, cg, g') \<and> contains cg decl)\<close>
proof
  from assms obtain rs fs' where "gen_fields M fs = Inr (rs, fs')"
    by (auto split: sum.splits)
  with assms
  have \<open>decl = concat (map snd rs) @ ''#[derive(Clone, Debug, Deserialize, Serialize)]\<newline>pub struct ''
              @ t @ '' {\<newline>'' @ concat (map fst rs) @ ''}\<newline>\<newline>''\<close>
    by simp
  then show \<open>\<exists>pre body. decl = pre @ ''#[derive(Clone, Debug, Deserialize, Serialize)]\<newline>pub struct ''
              @ t @ '' {\<newline>'' @ body @ ''}\<newline>\<newline>''\<close>
    by blast
  show \<open>\<forall>g \<in> set (visible (CompositeField p r d t fs)).
          \<exists>dg cg g'. gen_field M g = Inr (dg, cg, g') \<and> contains cg decl\<close>
    using assms gen_visible(1) by blast
qed

theorem composite_declarations_emitted_witness:
  \<open>overrides ''ListFunds.channels[].state'' = Some (Some ''ChannelState'')
   \<and> gen_field spec_model
     (CompositeField ''ListFunds.channels[].state'' True '''' ''State''
        [CompositeField ''ListFunds.channels[].state.detail'' True '''' ''Detail'' []])
   = Inr ('''',
          (''#[derive(Clone, Debug, Deserialize, Serialize)]\<newline>pub struct Detail {\<newline>}\<newline>\<newline>''
          @ ''#[derive(Clone, Debug, Deserialize, Serialize)]\<newline>pub struct State {\<newline>}\<newline>\<newline>''),
          (CompositeField ''ListFunds.channels[].state'' True '''' ''State''
        [CompositeField ''ListFunds.channels[].state.detail'' True '''' ''Detail'' []]))
   \<and> (\<exists>pre body. (''#[derive(Clone, Debug, Deserialize, Serialize)]\<newline>pub struct Detail {\<newline>}\<newline>\<newline>''
          @ ''#[derive(Clone, Debug, Deserialize, Serialize)]\<newline>pub struct State {\<newline>}\<newline>\<newline>'') = pre @ ''#[derive(Clone, Debug, Deserialize, Serialize)]\<newline>pub struct ''
              @ ''State'' @ '' {\<newline>'' @ body @ ''}\<newline>\<newline>'')
   \<and> (\<exists>dg cg g'. gen_field spec_model
           (CompositeField ''ListFunds.channels[].state.detail'' True '''' ''Detail'' [])
           = Inr (dg, cg, g')
         \<and> contains cg (''#[derive(Clone, Debug, Deserialize, Serialize)]\<newline>pub struct Detail {\<newline>}\<newline>\<newline>''
          @ ''#[derive(Clone, Debug, Deserialize, Serialize)]\<newline>pub struct State {\<newline>}\<newline>\<newline>''))\<close>
proof -
  have o: \<open>overrides ''ListFunds.channels[].state'' = Some (Some ''ChannelState'')\<close>
    by (simp add: overrides_def overrides_table_def)
  have h: \<open>gen_field spec_model
     (CompositeField ''ListFunds.channels[].state'' True '''' ''State''
        [CompositeField ''ListFunds.channels[].state.detail'' True '''' ''Detail'' []])
   = Inr ('''',
          (''#[derive(Clone, Debug, Deserialize, Serialize)]\<newline>pub struct Detail {\<newline>}\<newline>\<newline>''
          @ ''#[derive(Clone, Debug, Deserialize, Serialize)]\<newline>pub struct State {\<newline>}\<newline>\<newline>''),
          (CompositeField ''ListFunds.channels[].state'' True '''' ''State''
        [CompositeField ''ListFunds.channels[].state.detail'' True '''' ''Detail'' []]))\<close>
    by simp
  have v: \<open>CompositeField ''ListFunds.channels[].state.detail'' True '''' ''Detail'' []
      \<in> set (visible (CompositeField ''ListFunds.channels[].state'' True '''' ''State''
        [CompositeField ''ListFunds.channels[].state.detail'' True '''' ''Detail'' []]))\<close>
    by simp
  note t = composite_declarations_emitted [OF h]
  note 1 = t [THEN conjunct1]
  note 2 = t [THEN conjunct2, THEN bspec, OF v]
  from o h 1 2 show ?thesis
    by - (rule conjI, assumption, rule conjI, assumption, rule conjI, assumption, assumption)
qed

text \<open>
  Claim C1, as stated, fails: the path of the composite below is a key of the override
  table, and its declaration is emitted all the same.
\<close>

theorem overridden_composite_counterexample:
  \<open>overrides ''ListFunds.channels[].state'' = Some (Some ''ChannelState'')
   \<and> gen_field spec_model (CompositeField ''ListFunds.channels[].state'' True '''' ''State'' [])
     = Inr ('''',
            ''#[derive(Clone, Debug, Deserialize, Serialize)]\<newline>pub struct State {\<newline>}\<newline>\<newline>'',
            CompositeField ''ListFunds.channels[].state'' True '''' ''State'' [])\<close>
  by (simp add: overrides_def overrides_table_def)




section \<open>Arrays\<close>

lemma is_ArrayField_normalized: "is_ArrayField (normalized_tree f) = is_ArrayField f"
  by (cases f) simp_all

lemma array_itemtype_cases:
  "array_itemtype p item =
     (case overrides p of
        Some v \<Rightarrow> Inr v
      | None \<Rightarrow> if is_ArrayField item \<or> is_UnknownField item then Inl UnboundLocalError
                else Inr (Some (typename item)))"
  by (cases item) (simp_all add: array_itemtype_def split: option.splits)

text \<open>
  Claim C10. Rendering an array returns only under a precondition: when the path of the
  array has no entry in the overrides and the item is itself an array, the generator
  fails; and when the item can be rendered, the array can be rendered exactly if its
  path has an entry in the overrides or the item is not an array (a primitive, a
  composite or an enumeration).
\<close>

theorem array_rendering_precondition:
  "(overrides p = None \<and> is_ArrayField item \<longrightarrow>
      (\<exists>e. gen_field M (ArrayField p r d item n) = Inl e))
   \<and> (gen_field M item = Inr x \<longrightarrow>
        ((\<exists>y. gen_field M (ArrayField p r d item n) = Inr y)
          \<longleftrightarrow> overrides p \<noteq> None \<or> \<not> is_ArrayField item))"
proof (intro conjI impI)
  assume a: "overrides p = None \<and> is_ArrayField item"
  show "\<exists>e. gen_field M (ArrayField p r d item n) = Inl e"
  proof (cases "gen_field M item")
    case (Inl e)
    then show ?thesis by simp
  next
    case (Inr y)
    obtain dd c item' where y: "y = (dd, c, item')" by (cases y)
    with Inr have "item' = normalized_tree item" using gen_tree(1) by blast
    with a have "array_itemtype p item' = Inl UnboundLocalError"
      by (simp add: array_itemtype_cases is_ArrayField_normalized)
    with Inr y show ?thesis by simp
  qed
next
  assume g: "gen_field M item = Inr x"
  obtain dd c item' where x: "x = (dd, c, item')" by (cases x)
  with g have i: "item' = normalized_tree item" using gen_tree(1) by blast
  from g have u: "\<not> is_UnknownField item" by (cases item) simp_all
  show "(\<exists>y. gen_field M (ArrayField p r d item n) = Inr y)
          \<longleftrightarrow> overrides p \<noteq> None \<or> \<not> is_ArrayField item"
  proof (cases "overrides p")
    case None
    with g x i u show ?thesis
      by (cases item) (simp_all add: array_itemtype_def)
  next
    case (Some v)
    with g x show ?thesis
      by (cases v) (simp_all add: array_itemtype_def)
  qed
qed

theorem array_rendering_precondition_witness:
  "overrides ''Foo.grid[][]'' = None
   \<and> is_ArrayField (ArrayField ''Foo.grid[]'' True '''' (PrimitiveField ''Foo.grid'' True '''' ''number'') 1)
   \<and> (\<exists>e. gen_field spec_model
          (ArrayField ''Foo.grid[][]'' True ''''
             (ArrayField ''Foo.grid[]'' True '''' (PrimitiveField ''Foo.grid'' True '''' ''number'') 1) 1)
          = Inl e)"
proof -
  have a: "overrides ''Foo.grid[][]'' = None
     \<and> is_ArrayField (ArrayField ''Foo.grid[]'' True '''' (PrimitiveField ''Foo.grid'' True '''' ''number'') 1)"
    by (simp add: overrides_def overrides_table_def)
  from array_rendering_precondition [THEN conjunct1, rule_format, OF a] a
  show ?thesis by blast
qed

section \<open>The example of the short channel id\<close>

lemma last_segment_split:
  "\<exists>pre. p = pre @ last_segment p \<and> (pre = [] \<or> last pre = CHR ''.'')"
proof -
  let ?P = "\<lambda>c. c \<noteq> CHR ''.''"
  have "rev p = takeWhile ?P (rev p) @ dropWhile ?P (rev p)" by simp
  then have "p = rev (dropWhile ?P (rev p)) @ rev (takeWhile ?P (rev p))"
    by (metis rev_append rev_rev_ident)
  then have 1: "p = rev (dropWhile ?P (rev p)) @ last_segment p"
    by (simp add: last_segment_def)
  have "dropWhile ?P (rev p) = [] \<or> hd (dropWhile ?P (rev p)) = CHR ''.''"
    using hd_dropWhile [of ?P "rev p"] by auto
  then have "rev (dropWhile ?P (rev p)) = [] \<or> last (rev (dropWhile ?P (rev p))) = CHR ''.''"
    by (auto simp add: last_rev)
  with 1 show ?thesis by blast
qed

lemma last_segment_append:
  assumes "CHR ''.'' \<notin> set s" "pre = [] \<or> last pre = CHR ''.''"
  shows "last_segment (pre @ s) = s"
proof -
  let ?P = "\<lambda>c. c \<noteq> CHR ''.''"
  have t: "takeWhile ?P (rev s) = rev s"
    using assms(1) by (auto simp add: takeWhile_eq_all_conv)
  have "takeWhile ?P (rev (pre @ s)) = rev s"
  proof (cases "pre = []")
    case True
    with t show ?thesis by (simp only: append_Nil)
  next
    case False
    with assms obtain q where "pre = q @ [CHR ''.'']"
      by (metis append_butlast_last_id)
    then have "rev (pre @ s) = rev s @ CHR ''.'' # rev q" by simp
    then have "takeWhile ?P (rev (pre @ s)) = takeWhile ?P (rev s)"
      by (simp only: takeWhile_tail [of ?P "CHR ''.''", simplified])
    with t show ?thesis by (simp only:)
  qed
  then show ?thesis by (simp only: last_segment_def rev_rev_ident)
qed

lemma sub_upper_append:
  "pre \<noteq> [] \<Longrightarrow>
   sub_upper (pre @ s) = sub_upper pre @ concat (map (\<lambda>d. if is_AZ d then [CHR ''_'', d] else [d]) s)"
  by (cases pre) (simp_all add: sub_upper_def)

lemma last_sub_upper: "s \<noteq> [] \<Longrightarrow> last (sub_upper s) = last s"
proof (induction s rule: rev_induct)
  case Nil
  then show ?case by simp
next
  case (snoc x xs)
  show ?case
  proof (cases "xs = []")
    case True
    then show ?thesis by (simp add: sub_upper_def)
  next
    case False
    then show ?thesis by (simp add: sub_upper_append)
  qed
qed

lemma lower_char_dot: "lower_char (CHR ''.'') = CHR ''.''"
  by (simp add: lower_char_def upper_chars_def lower_chars_def)

lemma normalize_path_last_dot:
  assumes "pre \<noteq> []" "last pre = CHR ''.''"
  shows "normalize_path pre \<noteq> [] \<and> last (normalize_path pre) = CHR ''.''"
proof -
  have 1: "replace_dash pre \<noteq> []" "last (replace_dash pre) = CHR ''.''"
    using assms by (simp_all add: replace_dash_def last_map)
  then have 2: "sub_upper (replace_dash pre) \<noteq> []" "last (sub_upper (replace_dash pre)) = CHR ''.''"
    by (cases "replace_dash pre", simp_all add: sub_upper_def last_sub_upper [unfolded sub_upper_def])
  then show ?thesis
    by (simp add: normalize_path_def lower_def last_map lower_char_dot)
qed

lemma normalize_path_append:
  "pre \<noteq> [] \<Longrightarrow>
   normalize_path (pre @ s) =
     normalize_path pre
     @ lower (concat (map (\<lambda>d. if is_AZ d then [CHR ''_'', d] else [d]) (replace_dash s)))"
  by (simp add: normalize_path_def replace_dash_def sub_upper_append lower_def)

lemma short_channel_id_name:
  assumes "last_segment p = ''short-channel-id''"
  shows "last_segment (normalize_path p) = ''short_channel_id''"
proof -
  from last_segment_split [of p] assms obtain pre where
    p: "p = pre @ ''short-channel-id''" and pre: "pre = [] \<or> last pre = CHR ''.''"
    by auto
  show ?thesis
  proof (cases "pre = []")
    case True
    with p show ?thesis
      by (simp add: last_segment_def eval_defs)
  next
    case False
    with pre have l: "normalize_path pre \<noteq> [] \<and> last (normalize_path pre) = CHR ''.''"
      using normalize_path_last_dot by blast
    from False p have "normalize_path p = normalize_path pre @ ''short_channel_id''"
      by (simp add: normalize_path_append replace_dash_def is_AZ_def lower_def lower_char_def
          upper_chars_def lower_chars_def)
    with l show ?thesis
      by (simp add: last_segment_append)
  qed
qed

text \<open>
  Claim C6. For a primitive field with the schema name \<^verbatim>\<open>short-channel-id\<close> (the last
  segment of its path), not required and of type \<^verbatim>\<open>short_channel_id\<close>, rendering returns
  the fragment with the alias \<^verbatim>\<open>"short-channel-id"\<close>, the identifier
  \<^verbatim>\<open>short_channel_id\<close> and the type \<^verbatim>\<open>Option<String>\<close>, and no declaration.
\<close>

theorem short_channel_id_fragment:
  assumes \<open>last_segment p = ''short-channel-id''\<close>
  shows \<open>gen_field M (PrimitiveField p False d ''short_channel_id'')
    = Inr (''    #[serde(alias = "short-channel-id", skip_serializing_if = "Option::is_none")]\<newline>''
           @ ''    pub short_channel_id: Option<String>,\<newline>'',
           '''',
           PrimitiveField (normalize_path p) False d ''short_channel_id'')\<close>
  using assms short_channel_id_name [OF assms]
  by (simp add: gen_primitive_def field_name_def typemap_get_def typemap_def typemap_table_def)

theorem short_channel_id_fragment_witness:
  \<open>last_segment ''ListPeers.peers[].channels[].short-channel-id'' = ''short-channel-id''
   \<and> gen_field spec_model
       (PrimitiveField ''ListPeers.peers[].channels[].short-channel-id'' False ''''
          ''short_channel_id'')
    = Inr (''    #[serde(alias = "short-channel-id", skip_serializing_if = "Option::is_none")]\<newline>''
           @ ''    pub short_channel_id: Option<String>,\<newline>'',
           '''',
           PrimitiveField (normalize_path ''ListPeers.peers[].channels[].short-channel-id'') False ''''
             ''short_channel_id'')\<close>
proof -
  have a: \<open>last_segment ''ListPeers.peers[].channels[].short-channel-id'' = ''short-channel-id''\<close>
    by (simp add: last_segment_def)
  from a short_channel_id_fragment [OF a] show ?thesis
    by - (rule conjI, assumption, assumption)
qed

section \<open>Overrides and the type names of fragments\<close>

text \<open>
  Claim C5, as amended. For an enumeration whose path has an override that is not
  \<^verbatim>\<open>None\<close>, the fragment names the type by the override as it is written in the table,
  and no declaration is emitted. For an array whose path has such an override, the item
  type of the fragment is the override looked up in the typemap (the mapped name when
  the override is a key of the typemap, the override itself otherwise), and no
  declaration is emitted, neither for the item.
\<close>

theorem override_type_names:
  assumes \<open>overrides p = Some (Some v)\<close>
  shows \<open>(gen_field M (EnumField p r d t vs) = Inr (defi, decl, f') \<longrightarrow>
            decl = ''''
            \<and> defi = (if r
                 then ''    // Path `'' @ p @ ''`\<newline>    #[serde(rename = "'' @ last_segment p
                        @ ''")]\<newline>    pub '' @ name_normalized M (last_segment p) @ '': ''
                        @ v @ '',\<newline>''
                 else ''    pub '' @ name_normalized M (last_segment p) @ '': Option<''
                        @ v @ ''>,\<newline>''))
    \<and> (gen_field M (ArrayField p r d item n) = Inr (defi, decl, f') \<longrightarrow>
            decl = ''''
            \<and> defi = ''    #[serde(alias = "'' @ drop_last2 (name_normalized M (last_segment p))
                   @ ''")]\<newline>    pub '' @ remove_brackets (name_normalized M (last_segment p))
                   @ '': '' @ concat (replicate (nat n) ''Vec<'') @ typemap_get v
                   @ concat (replicate (nat n) ''>'') @ '',\<newline>'')\<close>
  using assms
  by (auto simp add: gen_enum_def enum_defi_def enum_typename_def str_opt_def field_name_def
      array_itemtype_def array_defi_def split: sum.splits)

theorem override_type_names_witness:
  \<open>overrides ''ListFunds.channels[].state'' = Some (Some ''ChannelState'')
   \<and> gen_field spec_model
       (EnumField ''ListFunds.channels[].state'' False '''' ''ListFundsChannelsState''
          [Some ''OPENING'', Some ''CLOSED''])
     = Inr (''    pub state: Option<ChannelState>,\<newline>'', '''',
            EnumField ''ListFunds.channels[].state'' False '''' ''ListFundsChannelsState''
              [Some ''OPENING'', Some ''CLOSED''])\<close>
proof -
  have a: \<open>overrides ''ListFunds.channels[].state'' = Some (Some ''ChannelState'')\<close>
    by (simp add: overrides_def overrides_table_def)
  have \<open>\<exists>defi decl f'. gen_field spec_model
       (EnumField ''ListFunds.channels[].state'' False '''' ''ListFundsChannelsState''
          [Some ''OPENING'', Some ''CLOSED'']) = Inr (defi, decl, f')\<close>
    by (simp add: gen_enum_def enum_decl_def)
  then obtain defi decl f' where g: \<open>gen_field spec_model
       (EnumField ''ListFunds.channels[].state'' False '''' ''ListFundsChannelsState''
          [Some ''OPENING'', Some ''CLOSED'']) = Inr (defi, decl, f')\<close>
    by blast
  then have f: \<open>f' = EnumField ''ListFunds.channels[].state'' False '''' ''ListFundsChannelsState''
          [Some ''OPENING'', Some ''CLOSED'']\<close>
    by (auto split: sum.splits)
  from override_type_names [OF a, THEN conjunct1, rule_format, OF g]
  have \<open>decl = '''' \<and> defi = ''    pub state: Option<ChannelState>,\<newline>''\<close>
    by (simp add: spec_model_def last_segment_def normalize_path_def lower_def lower_char_def
        upper_chars_def lower_chars_def sub_upper_def replace_dash_def is_AZ_def)
  with a g f show ?thesis by simp
qed

text \<open>
  Claim C5, as stated, fails: the override of the array below is \<^verbatim>\<open>string\<close>, and the
  fragment names the item type \<^verbatim>\<open>String\<close>, which is the entry of the typemap for
  \<^verbatim>\<open>string\<close>.
\<close>

theorem array_override_counterexample:
  \<open>overrides ''ListPeers.peers[].channels[].features[]'' = Some (Some ''string'')
   \<and> gen_field spec_model
       (ArrayField ''ListPeers.peers[].channels[].features[]'' True ''''
          (PrimitiveField ''ListPeers.peers[].channels[].features[]'' True '''' ''string'') 1)
     = Inr (''    #[serde(alias = "features")]\<newline>    pub features: Vec<String>,\<newline>'', '''',
            ArrayField ''ListPeers.peers[].channels[].features[]'' True ''''
              (PrimitiveField ''list_peers.peers[].channels[].features[]'' True '''' ''string'') 1)
   \<and> \<not> contains ''string''
         ''    #[serde(alias = "features")]\<newline>    pub features: Vec<String>,\<newline>''\<close>
  by (simp add: eval_defs)

section \<open>Aliases and optional markers\<close>

text \<open>The fragment of an enumeration that is not required is the field line alone,
  whatever the field is called: line 127 assigns it over the attribute line of line 126,
  and the branch writes no \<^verbatim>\<open>rename\<close> as the branch of line 124 does.\<close>

lemma optional_enum_fragment:
  assumes \<open>gen_field M (EnumField p False d t vs) = Inr (defi, decl, f')\<close>
  shows \<open>defi = ''    pub '' @ name_normalized M (last_segment p) @ '': Option<''
                 @ enum_typename (EnumField p False d t vs) @ ''>,\<newline>''\<close>
  using assms
  by (auto simp add: gen_enum_def enum_defi_def field_name_def split: sum.splits)

text \<open>An array that is not required: \<^verbatim>\<open>gen_array\<close> does not read \<^verbatim>\<open>a.required\<close>, and the
  type in the fragment is not wrapped in \<^verbatim>\<open>Option\<close>.\<close>

lemma optional_array_fragment:
  \<open>\<not> required (ArrayField ''Foo.items[]'' False ''''
                  (PrimitiveField ''Foo.items[]'' True '''' ''number'') 1)
   \<and> gen_field spec_model
       (ArrayField ''Foo.items[]'' False ''''
          (PrimitiveField ''Foo.items[]'' True '''' ''number'') 1)
     = Inr (''    #[serde(alias = "items")]\<newline>    pub items: Vec<i64>,\<newline>'', '''',
            ArrayField ''Foo.items[]'' False ''''
              (PrimitiveField ''foo.items[]'' True '''' ''number'') 1)
   \<and> \<not> contains ''Option<''
         ''    #[serde(alias = "items")]\<newline>    pub items: Vec<i64>,\<newline>''\<close>
  by (simp add: eval_defs)

text \<open>
  Claim C3. The claim asks that the field line of every child that is not suppressed
  carries a serialization alias equal to the schema name of the child before
  normalization, in particular for an enumeration that is not required. The code does
  not do so: for the enumeration \<^verbatim>\<open>my-state\<close> below, not required, \<^verbatim>\<open>gen_field\<close> returns the
  field line alone, and the schema name \<^verbatim>\<open>my-state\<close> occurs nowhere in the fragment.
\<close>

theorem optional_enum_without_alias:
  \<open>(\<exists>decl f'. gen_field spec_model
        (EnumField ''Peer.my-state'' False '''' ''MyState'' [Some ''OPEN''])
      = Inr (''    pub my_state: Option<MyState>,\<newline>'', decl, f'))
   \<and> \<not> contains ''my-state'' ''    pub my_state: Option<MyState>,\<newline>''\<close>
  by (simp add: gen_enum_def enum_decl_def enum_defi_def enum_typename_def field_name_def
      last_segment_def overrides_def overrides_table_def spec_model_def normalize_path_def
      lower_def lower_char_def upper_chars_def lower_chars_def sub_upper_def replace_dash_def
      is_AZ_def)

section \<open>The numeric conversion of an enumeration\<close>

lemma upt_shift: "[i ..< i + Suc n] = i # [Suc i ..< Suc i + n]"
  by (simp add: upt_conv_Cons del: upt_Suc)

lemma try_from_arms_all:
  "None \<notin> set vs \<Longrightarrow>
   try_from_arms M i vs
     = Inr (zip [i ..< i + length vs] (map (\<lambda>v. variant_normalized M (the v)) vs))"
proof (induction vs arbitrary: i)
  case Nil
  then show ?case by simp
next
  case (Cons v vs)
  then obtain s where v: "v = Some s" by (cases v) auto
  from Cons have "try_from_arms M (Suc i) vs
     = Inr (zip [Suc i ..< Suc i + length vs] (map (\<lambda>v. variant_normalized M (the v)) vs))"
    by simp
  moreover have "[i ..< i + length (v # vs)] = i # [Suc i ..< Suc i + length vs]"
    using upt_shift [of i "length vs"] by simp
  ultimately show ?case using v by (simp del: upt_Suc)
qed

lemma map_of_zip_upt:
  "map_of (zip [i ..< i + length xs] xs) k
     = (if i \<le> k \<and> k < i + length xs then Some (xs ! (k - i)) else None)"
proof (induction xs arbitrary: i)
  case Nil
  then show ?case by simp
next
  case (Cons x xs)
  have "[i ..< i + length (x # xs)] = i # [Suc i ..< Suc i + length xs]"
    using upt_shift [of i "length xs"] by simp
  then have "map_of (zip [i ..< i + length (x # xs)] (x # xs)) k
      = (if k = i then Some x else map_of (zip [Suc i ..< Suc i + length xs] xs) k)"
    by (simp del: upt_Suc)
  also have "\<dots> = (if i \<le> k \<and> k < i + length (x # xs) then Some ((x # xs) ! (k - i)) else None)"
  proof (cases "k = i")
    case True
    then show ?thesis by simp
  next
    case False
    have 1: "map_of (zip [Suc i ..< Suc i + length xs] xs) k
        = (if Suc i \<le> k \<and> k < Suc i + length xs then Some (xs ! (k - Suc i)) else None)"
      by (rule Cons.IH)
    have 2: "(i \<le> k \<and> k < i + length (x # xs)) = (Suc i \<le> k \<and> k < Suc i + length xs)"
      using False by auto
    have 3: "Suc i \<le> k \<Longrightarrow> (x # xs) ! (k - i) = xs ! (k - Suc i)"
      by (simp add: nth_Cons')
    show ?thesis using False 3 by (simp only: 1 2 if_False split: if_splits) simp
  qed
  finally show ?case .
qed

lemma split_lf_line: "CHR 0x0A \<notin> set a \<Longrightarrow> split_lf (a @ CHR 0x0A # b) = a # split_lf b"
  by (induction a) auto

lemma try_from_tail_text:
  assumes \<open>CHR 0x0A \<notin> set t\<close>
  shows \<open>try_from_tail t
    = ''            o => Err(anyhow::anyhow!("Unknown variant {} for enum '' @ t @ ''", o)),\<newline>''
      @ ''        }\<newline>''
      @ ''    }\<newline>''
      @ ''}\<newline>''\<close>
proof -
  let ?l = \<open>''                o => Err(anyhow::anyhow!("Unknown variant {} for enum '' @ t @ ''", o)),''\<close>
  have 1: \<open>CHR 0x0A \<notin> set ?l\<close> using assms by simp
  have \<open>split_lf (?l @ CHR 0x0A # (''            }\<newline>'' @ ''        }\<newline>'' @ ''    }\<newline>'' @ ''    ''))
     = ?l # split_lf (''            }\<newline>'' @ ''        }\<newline>'' @ ''    }\<newline>'' @ ''    '')\<close>
    using 1 by (rule split_lf_line)
  then have \<open>split_lf (''                o => Err(anyhow::anyhow!("Unknown variant {} for enum ''
       @ t @ ''", o)),\<newline>''
       @ ''            }\<newline>''
       @ ''        }\<newline>''
       @ ''    }\<newline>''
       @ ''    '')
     = [?l, ''            }'', ''        }'', ''    }'', ''    '']\<close>
    by simp
  then show ?thesis
    by (simp add: try_from_tail_def dedent_def margin_def indents_def blank_def strip_margin_def)
qed

text \<open>
  The conversion of an enumeration none of whose variants is \<^verbatim>\<open>None\<close>. Rendering
  returns, the arms of the emitted \<^verbatim>\<open>match\<close> are one for each position of the
  variants, so that the conversion maps every integer \<open>c\<close> with \<open>0 \<le> c < N\<close>, for
  \<open>N\<close> the number of variants, to the variant at position \<open>c\<close> and selects no arm for any
  other integer, which the catch-all arm turns into an error; the arms and the
  catch-all arm are part of the declaration when the path is not overridden, and the
  error names the type of the enumeration (for a type name without a line feed, as the
  text below).
\<close>

lemma enum_numeric_conversion:
  assumes \<open>None \<notin> set vs\<close>
  shows \<open>\<exists>defi decl arms.
     gen_field M (EnumField p r d t vs) = Inr (defi, decl, EnumField p r d t vs)
     \<and> try_from_arms M 0 vs = Inr arms
     \<and> (\<forall>c. match_arm arms c
            = (if 0 \<le> c \<and> c < int (length vs)
               then Some (variant_normalized M (the (vs ! nat c))) else None))
     \<and> (overrides p = None \<longrightarrow>
          (\<exists>pre. decl = pre @ concat (map (arm_line t) arms) @ try_from_tail t))
     \<and> (CHR 0x0A \<notin> set t \<longrightarrow>
          try_from_tail t
            = ''            o => Err(anyhow::anyhow!("Unknown variant {} for enum '' @ t
              @ ''", o)),\<newline>''
              @ ''        }\<newline>''
              @ ''    }\<newline>''
              @ ''}\<newline>'')\<close>
proof -
  let ?arms = "zip [0 ..< 0 + length vs] (map (\<lambda>v. variant_normalized M (the v)) vs)"
  have a: "try_from_arms M 0 vs = Inr ?arms"
    using assms by (rule try_from_arms_all)
  then obtain decl0 where d: "enum_decl M (EnumField p r d t vs) = Inr decl0"
    and d0: "\<exists>pre. decl0 = pre @ concat (map (arm_line t) ?arms) @ try_from_tail t"
    by (simp add: enum_decl_def)
  let ?decl = "if overrides p \<noteq> None then [] else decl0"
  have g: "gen_field M (EnumField p r d t vs)
      = Inr (enum_defi M (EnumField p r d t vs), ?decl, EnumField p r d t vs)"
    using d by (simp add: gen_enum_def)
  have m: "\<forall>c. match_arm ?arms c
            = (if 0 \<le> c \<and> c < int (length vs)
               then Some (variant_normalized M (the (vs ! nat c))) else None)"
  proof
    fix c :: int
    have "map_of ?arms (nat c)
        = (if 0 \<le> nat c \<and> nat c < 0 + length (map (\<lambda>v. variant_normalized M (the v)) vs)
           then Some (map (\<lambda>v. variant_normalized M (the v)) vs ! (nat c - 0)) else None)"
      using map_of_zip_upt [of 0 "map (\<lambda>v. variant_normalized M (the v)) vs" "nat c"]
      by simp
    then show "match_arm ?arms c
            = (if 0 \<le> c \<and> c < int (length vs)
               then Some (variant_normalized M (the (vs ! nat c))) else None)"
      by (auto simp add: match_arm_def)
  qed
  have o: "overrides p = None \<longrightarrow>
          (\<exists>pre. ?decl = pre @ concat (map (arm_line t) ?arms) @ try_from_tail t)"
    using d0 by simp
  have e: \<open>CHR 0x0A \<notin> set t \<longrightarrow>
          try_from_tail t
            = ''            o => Err(anyhow::anyhow!("Unknown variant {} for enum '' @ t
              @ ''", o)),\<newline>''
              @ ''        }\<newline>''
              @ ''    }\<newline>''
              @ ''}\<newline>''\<close>
    using try_from_tail_text by blast
  show ?thesis
    by (intro exI conjI) (rule g, rule a, rule m, rule o, rule e)
qed

text \<open>With a variant that is \<^verbatim>\<open>None\<close>, the second loop of \<^verbatim>\<open>gen_enum\<close> (lines 106 to 109)
  calls \<^verbatim>\<open>normalized()\<close> on it; the loop has no guard such as the first loop has in lines
  91 and 92. The call raises \<^verbatim>\<open>AttributeError\<close>, and nothing is rendered.\<close>

lemma try_from_arms_null: "None \<in> set vs \<Longrightarrow> try_from_arms M i vs = Inl AttributeError"
proof (induction vs arbitrary: i)
  case Nil
  then show ?case by simp
next
  case (Cons v vs)
  show ?case
  proof (cases v)
    case None
    then show ?thesis by simp
  next
    case (Some s)
    with Cons.prems have "None \<in> set vs" by simp
    then have "try_from_arms M (Suc i) vs = Inl AttributeError" by (rule Cons.IH)
    with Some show ?thesis by simp
  qed
qed

lemma gen_enum_null_variant:
  "None \<in> set vs \<Longrightarrow> gen_field M (EnumField p r d t vs) = Inl AttributeError"
  by (simp add: gen_enum_def enum_decl_def try_from_arms_null)

text \<open>
  Claim C4. The claim asks that, for an enumeration whose variants have \<^verbatim>\<open>None\<close> at index
  2, the emitted conversion maps 0 and 1 to the first two variants, reports an error for
  2 and maps 3 to the variant after the \<^verbatim>\<open>None\<close>. The code does not do so: for the
  enumeration of the spec's example, \<^verbatim>\<open>gen_field\<close> ends with \<^verbatim>\<open>AttributeError\<close>, and no
  conversion is emitted at all.
\<close>

theorem null_variant_generation_fails:
  \<open>gen_field spec_model
     (EnumField ''ListPeers.peers[].state'' True '''' ''ChannelState''
        [Some ''OPENING'', Some ''CHANNELD_NORMAL'', None, Some ''CLOSED''])
   = Inl AttributeError\<close>
  by (simp add: gen_enum_def enum_decl_def)

end
